theory Spec2Isabelle
  imports Complex_Main "HOL-Library.Word" "HOL-Library.Sublist" "HOL-Library.AList"
begin

unbundle bit_operations_syntax

section \<open>MemoryScoreReader: the SMB score decoder (src/lib/nes.ts, src/nes-widget.tsx)\<close>

text \<open>
  The emulated CPU memory is a byte array (\<open>Uint8Array\<close>); \<open>mem[a] ?? 0\<close> reads
  0 outside the array. \<open>nes?.cpu?.mem\<close> being absent is \<open>None\<close>.
\<close>

type_synonym memory = "8 word list"

definition SMB_SCORE_START :: nat where
  "SMB_SCORE_START = 0x07dd"

definition SMB_SCORE_DIGITS :: nat where
  "SMB_SCORE_DIGITS = 6"

definition mem_read :: "memory \<Rightarrow> nat \<Rightarrow> 8 word" where
  "mem_read m a = (if a < length m then m ! a else 0)"

text \<open>\<open>digits.join('')\<close>: every digit is below ten, so it prints as one character.\<close>

definition digit_str :: "nat \<Rightarrow> string" where
  "digit_str d = [''0123456789'' ! d]"

definition digit_val :: "char \<Rightarrow> nat option" where
  "digit_val c = (if c \<in> set ''0123456789'' then Some (of_char c - 48) else None)"

text \<open>
  \<open>parseInt(s, 10)\<close> on a string without sign or blanks: the longest prefix of decimal
  digits is read; with no digit at all the result is NaN, here \<open>None\<close>.
\<close>

fun parse_digits :: "string \<Rightarrow> int option \<Rightarrow> int option" where
  "parse_digits [] acc = acc"
| "parse_digits (c # cs) acc =
     (case digit_val c of
        None \<Rightarrow> acc
      | Some d \<Rightarrow>
          parse_digits cs (Some ((case acc of None \<Rightarrow> 0 | Some a \<Rightarrow> a) * 10 + int d)))"

definition parseInt10 :: "string \<Rightarrow> int option" where
  "parseInt10 s = parse_digits s None"

text \<open>
  The \<open>for\<close> loop of \<open>readSmbScoreFromMemory\<close>: \<open>i\<close> is the loop counter, the third
  argument the number of iterations left, \<open>None\<close> the early \<open>return null\<close>.
\<close>

fun smb_digit_loop :: "memory \<Rightarrow> nat \<Rightarrow> nat \<Rightarrow> nat list \<Rightarrow> nat list option" where
  "smb_digit_loop m i 0 digits = Some digits"
| "smb_digit_loop m i (Suc k) digits =
     (let raw = mem_read m (SMB_SCORE_START + i); d = raw AND 0x0f
      in if d > 9 then None else smb_digit_loop m (Suc i) k (digits @ [unat d]))"

definition readSmbScoreFromMemory :: "memory option \<Rightarrow> int option" where
  "readSmbScoreFromMemory nes_mem =
     (case nes_mem of
        None \<Rightarrow> None
      | Some m \<Rightarrow>
          (case smb_digit_loop m 0 SMB_SCORE_DIGITS [] of
             None \<Rightarrow> None
           | Some digits \<Rightarrow>
               (let scoreStr = concat (map digit_str digits) @ ''0'' in
                case parseInt10 scoreStr of
                  None \<Rightarrow> None
                | Some score \<Rightarrow> if score \<le> 0 then None else Some score)))"


section \<open>Controller input: guided mapping and reconciliation\<close>

text \<open>
  The two presentation contexts, the emulator screen (src/unnamed/part_002) and the widget
  (src/nes-widget.tsx), hold the same refs and run the same \<open>poll\<close> tick up to the
  differences written out below. A ref and the React state it mirrors (\<open>mappingRef\<close> and
  \<open>mapping\<close>, \<open>activeBindingRef\<close> and \<open>activeBinding\<close>, \<open>bindingStepRef\<close> and
  \<open>bindingStep\<close>) are one field here: the effects that copy the state into the ref run
  before the next animation frame. The values a tick reads from its closure
  (\<open>showMapperModal\<close>, \<open>isPlaying\<close> or \<open>isRunning\<close>, \<open>isCollapsed\<close>, whether
  \<open>nesRef.current\<close> is set) are the \<open>PollEnv\<close> of that tick. The calls
  \<open>nes.buttonDown(1, b)\<close> and \<open>nes.buttonUp(1, b)\<close> of a tick are returned in order.
\<close>

datatype NesLogical = UP | DOWN | LEFT | RIGHT | SELECT | START | B | A

definition BINDING_ORDER :: "NesLogical list" where
  "BINDING_ORDER = [UP, DOWN, LEFT, RIGHT, SELECT, START, B, A]"

definition AXIS_DEADZONE :: real where
  "AXIS_DEADZONE = 0.4"

datatype NesMappingEntry =
    ButtonEntry (entry_index: nat)
  | AxisEntry (entry_axis: nat) (entry_direction: int) (entry_threshold: "real option")

type_synonym NesMapping = "NesLogical \<rightharpoonup> NesMappingEntry"

record GamepadButton =
  btn_pressed :: bool
  btn_value :: real

record Gamepad =
  pad_id :: string
  pad_buttons :: "GamepadButton option list"
  pad_axes :: "real option list"

datatype runtime_call = ButtonDown nat nat | ButtonUp nat nat

definition BUTTON_A :: nat where "BUTTON_A = 0"
definition BUTTON_B :: nat where "BUTTON_B = 1"
definition BUTTON_SELECT :: nat where "BUTTON_SELECT = 2"
definition BUTTON_START :: nat where "BUTTON_START = 3"
definition BUTTON_UP :: nat where "BUTTON_UP = 4"
definition BUTTON_DOWN :: nat where "BUTTON_DOWN = 5"
definition BUTTON_LEFT :: nat where "BUTTON_LEFT = 6"
definition BUTTON_RIGHT :: nat where "BUTTON_RIGHT = 7"

fun nesButtonForLogical :: "NesLogical \<Rightarrow> nat" where
  "nesButtonForLogical A = BUTTON_A"
| "nesButtonForLogical B = BUTTON_B"
| "nesButtonForLogical SELECT = BUTTON_SELECT"
| "nesButtonForLogical START = BUTTON_START"
| "nesButtonForLogical UP = BUTTON_UP"
| "nesButtonForLogical DOWN = BUTTON_DOWN"
| "nesButtonForLogical LEFT = BUTTON_LEFT"
| "nesButtonForLogical RIGHT = BUTTON_RIGHT"

record AxisFlags =
  ax_up :: bool
  ax_down :: bool
  ax_left :: bool
  ax_right :: bool

record PadState =
  gamepadIndex :: "nat option"
  gamepadConnected :: bool
  gamepadLabel :: "string option"
  mapping :: NesMapping
  activeBinding :: "NesLogical option"
  waitingForRelease :: bool
  pendingAdvance :: "NesLogical option"
  bindingStep :: nat
  mappingDone :: bool
  prevButtons :: "bool list"
  prevAxis :: AxisFlags
  prevLogical :: "NesLogical \<Rightarrow> bool"
  storedMappings :: "string \<rightharpoonup> NesMapping"

record PollEnv =
  hasGetGamepads :: bool
  showMapperModal :: bool
  isPlaying :: bool
  isCollapsed :: bool
  hasNes :: bool

text \<open>\<open>xs[i]\<close> in JavaScript: \<open>undefined\<close> outside the array.\<close>

definition js_nth :: "'a list \<Rightarrow> nat \<Rightarrow> 'a option" where
  "js_nth xs i = (if i < length xs then Some (xs ! i) else None)"

text \<open>\<open>b && (b.pressed || b.value > 0.5)\<close>\<close>

definition button_engaged :: "GamepadButton option \<Rightarrow> bool" where
  "button_engaged b = (case b of None \<Rightarrow> False | Some x \<Rightarrow> btn_pressed x \<or> btn_value x > 0.5)"

definition anyPressed :: "GamepadButton option list \<Rightarrow> bool" where
  "anyPressed bs = list_ex button_engaged bs"

definition axisEngaged :: "real option list \<Rightarrow> bool" where
  "axisEngaged axs = list_ex (\<lambda>v. \<bar>case v of None \<Rightarrow> 0 | Some x \<Rightarrow> x\<bar> \<ge> AXIS_DEADZONE) axs"

subsection \<open>Guided mapping\<close>

definition persistMappingForGamepad :: "string \<Rightarrow> NesMapping \<Rightarrow> PadState \<Rightarrow> PadState" where
  "persistMappingForGamepad ident next s = s\<lparr>storedMappings := (storedMappings s)(ident \<mapsto> next)\<rparr>"

definition startGuidedMapping :: "string option \<Rightarrow> PadState \<Rightarrow> PadState" where
  "startGuidedMapping ident s =
     (let s1 = s\<lparr>mapping := Map.empty, waitingForRelease := False, pendingAdvance := None\<rparr>;
          s2 = (case ident of
                  None \<Rightarrow> s1
                | Some i \<Rightarrow> if i = [] then s1 else persistMappingForGamepad i Map.empty s1)
      in s2\<lparr>mappingDone := False, bindingStep := 0, activeBinding := Some (BINDING_ORDER ! 0)\<rparr>)"

text \<open>\<open>advanceBinding\<close> of the emulator screen (src/unnamed/part_002).\<close>

definition advanceBinding :: "PollEnv \<Rightarrow> NesLogical \<Rightarrow> PadState \<Rightarrow> PadState" where
  "advanceBinding env completed s =
     (if \<not> showMapperModal env then s
      else let nextIndex = bindingStep s + 1 in
        if nextIndex \<ge> length BINDING_ORDER
        then s\<lparr>bindingStep := length BINDING_ORDER, activeBinding := None, mappingDone := True,
               waitingForRelease := False, pendingAdvance := None\<rparr>
        else s\<lparr>bindingStep := nextIndex, activeBinding := Some (BINDING_ORDER ! nextIndex),
               waitingForRelease := True, pendingAdvance := Some completed\<rparr>)"

text \<open>\<open>advanceBinding\<close> of the widget (src/nes-widget.tsx).\<close>

definition advanceBinding_widget :: "PollEnv \<Rightarrow> NesLogical \<Rightarrow> PadState \<Rightarrow> PadState" where
  "advanceBinding_widget env completed s =
     (if \<not> showMapperModal env then s
      else let nextIndex = bindingStep s + 1 in
        if nextIndex \<ge> length BINDING_ORDER
        then s\<lparr>bindingStep := length BINDING_ORDER, activeBinding := None, mappingDone := True\<rparr>
        else s\<lparr>bindingStep := nextIndex, activeBinding := Some (BINDING_ORDER ! nextIndex)\<rparr>)"

text \<open>The scan of the buttons: the index of the first engaged one.\<close>

fun scan_buttons :: "GamepadButton option list \<Rightarrow> nat \<Rightarrow> nat option" where
  "scan_buttons [] i = None"
| "scan_buttons (b # bs) i = (if button_engaged b then Some i else scan_buttons bs (Suc i))"

text \<open>The four tests of the axis scan, in the order of the source.\<close>

definition axis_entry_for :: "NesLogical \<Rightarrow> nat \<Rightarrow> real \<Rightarrow> NesMappingEntry option" where
  "axis_entry_for binding axisIndex v =
     (if binding = LEFT \<and> v \<le> - AXIS_DEADZONE
        then Some (AxisEntry axisIndex (- 1) (Some (- AXIS_DEADZONE)))
      else if binding = RIGHT \<and> v \<ge> AXIS_DEADZONE
        then Some (AxisEntry axisIndex 1 (Some AXIS_DEADZONE))
      else if binding = UP \<and> v \<le> - AXIS_DEADZONE
        then Some (AxisEntry axisIndex (- 1) (Some (- AXIS_DEADZONE)))
      else if binding = DOWN \<and> v \<ge> AXIS_DEADZONE
        then Some (AxisEntry axisIndex 1 (Some AXIS_DEADZONE))
      else None)"

fun scan_axes :: "NesLogical \<Rightarrow> real option list \<Rightarrow> nat \<Rightarrow> NesMappingEntry option" where
  "scan_axes binding [] axisIndex = None"
| "scan_axes binding (v # vs) axisIndex =
     (case v of
        None \<Rightarrow> scan_axes binding vs (Suc axisIndex)
      | Some x \<Rightarrow>
          (case axis_entry_for binding axisIndex x of
             Some e \<Rightarrow> Some e
           | None \<Rightarrow> scan_axes binding vs (Suc axisIndex)))"

text \<open>
  What the capture branch binds on this tick, if anything: a button first, an axis only for
  the four directions and only when no button matched.
\<close>

definition capture_entry :: "Gamepad \<Rightarrow> NesLogical \<Rightarrow> NesMappingEntry option" where
  "capture_entry gp binding =
     (case scan_buttons (pad_buttons gp) 0 of
        Some i \<Rightarrow> Some (ButtonEntry i)
      | None \<Rightarrow>
          if binding = UP \<or> binding = DOWN \<or> binding = LEFT \<or> binding = RIGHT
          then scan_axes binding (pad_axes gp) 0
          else None)"


text \<open>The capture branch of \<open>poll\<close> in the emulator screen; it always ends the tick.\<close>

definition capture_screen :: "PollEnv \<Rightarrow> Gamepad \<Rightarrow> NesLogical \<Rightarrow> PadState \<Rightarrow> PadState" where
  "capture_screen env gp binding s =
     (if waitingForRelease s
      then (if \<not> anyPressed (pad_buttons gp) \<and> \<not> axisEngaged (pad_axes gp)
            then (let pending = pendingAdvance s;
                      s1 = s\<lparr>waitingForRelease := False, pendingAdvance := None\<rparr>
                  in case pending of None \<Rightarrow> s1 | Some p \<Rightarrow> advanceBinding env p s1)
            else s)
      else (case capture_entry gp binding of
              None \<Rightarrow> s
            | Some e \<Rightarrow>
                (let nextMapping = (mapping s)(binding \<mapsto> e);
                     s1 = s\<lparr>mapping := nextMapping\<rparr>;
                     s2 = (if pad_id gp \<noteq> [] then persistMappingForGamepad (pad_id gp) nextMapping s1
                           else s1)
                 in s2\<lparr>waitingForRelease := True\<rparr>)))"

text \<open>
  The capture branch of \<open>poll\<close> in the widget: \<open>Some\<close> is the state with which the tick
  ends, \<open>None\<close> means nothing was bound and the tick goes on to reconciliation.
\<close>

definition capture_widget :: "PollEnv \<Rightarrow> Gamepad \<Rightarrow> NesLogical \<Rightarrow> PadState \<Rightarrow> PadState option" where
  "capture_widget env gp binding s =
     (if waitingForRelease s
      then (if anyPressed (pad_buttons gp) \<or> axisEngaged (pad_axes gp) then Some s
            else (let pending = pendingAdvance s;
                      s1 = s\<lparr>waitingForRelease := False, pendingAdvance := None\<rparr>
                  in Some (case pending of None \<Rightarrow> s1 | Some p \<Rightarrow> advanceBinding_widget env p s1)))
      else (case capture_entry gp binding of
              None \<Rightarrow> None
            | Some e \<Rightarrow>
                (let nextMapping = (mapping s)(binding \<mapsto> e);
                     s1 = persistMappingForGamepad (pad_id gp) nextMapping (s\<lparr>mapping := nextMapping\<rparr>)
                 in Some (if showMapperModal env
                          then s1\<lparr>waitingForRelease := True, pendingAdvance := Some binding\<rparr>
                          else s1\<lparr>activeBinding := None\<rparr>))))"

subsection \<open>Reconciliation\<close>

definition hasCustomMapping :: "NesMapping \<Rightarrow> bool" where
  "hasCustomMapping m =
     (m A \<noteq> None \<or> m B \<noteq> None \<or> m SELECT \<noteq> None \<or> m START \<noteq> None
      \<or> m UP \<noteq> None \<or> m DOWN \<noteq> None \<or> m LEFT \<noteq> None \<or> m RIGHT \<noteq> None)"

definition logicals :: "NesLogical list" where
  "logicals = [A, B, SELECT, START, UP, DOWN, LEFT, RIGHT]"

definition isPressedLogical :: "NesMapping \<Rightarrow> Gamepad \<Rightarrow> NesLogical \<Rightarrow> bool" where
  "isPressedLogical m gp logical =
     (case m logical of
        None \<Rightarrow> False
      | Some (ButtonEntry i) \<Rightarrow>
          button_engaged (case js_nth (pad_buttons gp) i of None \<Rightarrow> None | Some b \<Rightarrow> b)
      | Some (AxisEntry ax dir th) \<Rightarrow>
          (let v = (case js_nth (pad_axes gp) ax of Some (Some x) \<Rightarrow> x | _ \<Rightarrow> 0)
           in if dir = - 1
              then v \<le> (case th of None \<Rightarrow> - AXIS_DEADZONE | Some t \<Rightarrow> t)
              else v \<ge> (case th of None \<Rightarrow> AXIS_DEADZONE | Some t \<Rightarrow> t)))"

text \<open>The loop over the logical buttons when a custom mapping exists.\<close>

fun reconcile_custom ::
  "NesMapping \<Rightarrow> Gamepad \<Rightarrow> NesLogical list \<Rightarrow> (NesLogical \<Rightarrow> bool)
     \<Rightarrow> (NesLogical \<Rightarrow> bool) \<times> runtime_call list" where
  "reconcile_custom m gp [] prev = (prev, [])"
| "reconcile_custom m gp (l # ls) prev =
     (let pressed = isPressedLogical m gp l; wasPressed = prev l
      in if pressed = wasPressed then reconcile_custom m gp ls prev
         else (let r = reconcile_custom m gp ls (prev(l := pressed))
               in (fst r,
                   (if pressed then ButtonDown 1 (nesButtonForLogical l)
                    else ButtonUp 1 (nesButtonForLogical l)) # snd r)))"

definition mapButtonIndex :: "nat \<Rightarrow> nat option" where
  "mapButtonIndex i =
     (if i = 12 then Some BUTTON_UP
      else if i = 13 then Some BUTTON_DOWN
      else if i = 14 then Some BUTTON_LEFT
      else if i = 15 then Some BUTTON_RIGHT
      else if i = 0 \<or> i = 2 then Some BUTTON_A
      else if i = 1 \<or> i = 3 then Some BUTTON_B
      else if i = 8 \<or> i = 4 \<or> i = 6 then Some BUTTON_SELECT
      else if i = 9 \<or> i = 5 \<or> i = 7 then Some BUTTON_START
      else None)"

text \<open>The loop over the physical buttons of the default layout.\<close>

fun reconcile_buttons ::
  "GamepadButton option list \<Rightarrow> nat \<Rightarrow> bool list \<Rightarrow> bool list \<times> runtime_call list" where
  "reconcile_buttons [] i prev = (prev, [])"
| "reconcile_buttons (b # bs) i prev =
     (let pressed = (case b of None \<Rightarrow> False | Some x \<Rightarrow> btn_pressed x);
          wasPressed = (case js_nth prev i of None \<Rightarrow> False | Some p \<Rightarrow> p)
      in if pressed = wasPressed then reconcile_buttons bs (Suc i) prev
         else (case mapButtonIndex i of
                 None \<Rightarrow> reconcile_buttons bs (Suc i) (prev[i := pressed])
               | Some nesButton \<Rightarrow>
                   (let r = reconcile_buttons bs (Suc i) (prev[i := pressed])
                    in (fst r,
                        (if pressed then ButtonDown 1 nesButton else ButtonUp 1 nesButton) # snd r))))"

definition axisState :: "real option list \<Rightarrow> AxisFlags" where
  "axisState axs =
     \<lparr>ax_up = (case js_nth axs 1 of Some (Some v) \<Rightarrow> v \<le> - AXIS_DEADZONE | _ \<Rightarrow> False),
      ax_down = (case js_nth axs 1 of Some (Some v) \<Rightarrow> v \<ge> AXIS_DEADZONE | _ \<Rightarrow> False),
      ax_left = (case js_nth axs 0 of Some (Some v) \<Rightarrow> v \<le> - AXIS_DEADZONE | _ \<Rightarrow> False),
      ax_right = (case js_nth axs 0 of Some (Some v) \<Rightarrow> v \<ge> AXIS_DEADZONE | _ \<Rightarrow> False)\<rparr>"

definition handleAxisChange ::
  "bool \<Rightarrow> bool \<Rightarrow> nat \<Rightarrow> runtime_call list" where
  "handleAxisChange pressed wasPressed button =
     (if pressed = wasPressed then []
      else if pressed then [ButtonDown 1 button] else [ButtonUp 1 button])"

definition reconcile_default :: "Gamepad \<Rightarrow> PadState \<Rightarrow> PadState \<times> runtime_call list" where
  "reconcile_default gp s =
     (let prev0 = (if length (prevButtons s) \<noteq> length (pad_buttons gp)
                   then replicate (length (pad_buttons gp)) False else prevButtons s);
          r = reconcile_buttons (pad_buttons gp) 0 prev0;
          now = axisState (pad_axes gp);
          was = prevAxis s
      in (s\<lparr>prevButtons := fst r, prevAxis := now\<rparr>,
          snd r
          @ handleAxisChange (ax_left now) (ax_left was) BUTTON_LEFT
          @ handleAxisChange (ax_right now) (ax_right was) BUTTON_RIGHT
          @ handleAxisChange (ax_up now) (ax_up was) BUTTON_UP
          @ handleAxisChange (ax_down now) (ax_down was) BUTTON_DOWN))"

definition reconcile :: "Gamepad \<Rightarrow> PadState \<Rightarrow> PadState \<times> runtime_call list" where
  "reconcile gp s =
     (if hasCustomMapping (mapping s)
      then (let r = reconcile_custom (mapping s) gp logicals (prevLogical s)
            in (s\<lparr>prevLogical := fst r\<rparr>, snd r))
      else reconcile_default gp s)"

subsection \<open>The poll tick\<close>

definition pad_at :: "Gamepad option list \<Rightarrow> nat \<Rightarrow> Gamepad option" where
  "pad_at pads index = (case js_nth pads index of Some (Some gp) \<Rightarrow> Some gp | _ \<Rightarrow> None)"

text \<open>\<open>poll\<close> of the emulator screen (src/unnamed/part_002).\<close>

definition poll :: "PollEnv \<Rightarrow> Gamepad option list \<Rightarrow> PadState \<Rightarrow> PadState \<times> runtime_call list" where
  "poll env pads s =
     (case gamepadIndex s of
        None \<Rightarrow> (s, [])
      | Some index \<Rightarrow>
          if \<not> hasGetGamepads env then (s, [])
          else (case pad_at pads index of
                  None \<Rightarrow> (s, [])
                | Some gp \<Rightarrow>
                    (case activeBinding s of
                       Some binding \<Rightarrow> (capture_screen env gp binding s, [])
                     | None \<Rightarrow>
                         if \<not> hasNes env \<or> (\<not> isPlaying env \<and> \<not> showMapperModal env) then (s, [])
                         else reconcile gp s)))"

text \<open>\<open>poll\<close> of the widget (src/nes-widget.tsx); its \<open>isRunning\<close> is \<open>isPlaying\<close> here.\<close>

definition poll_widget ::
  "PollEnv \<Rightarrow> Gamepad option list \<Rightarrow> PadState \<Rightarrow> PadState \<times> runtime_call list" where
  "poll_widget env pads s =
     (case gamepadIndex s of
        None \<Rightarrow> (s, [])
      | Some index \<Rightarrow>
          if \<not> hasGetGamepads env then (s, [])
          else (case pad_at pads index of
                  None \<Rightarrow> (s, [])
                | Some gp \<Rightarrow>
                    (case (case activeBinding s of
                             None \<Rightarrow> None
                           | Some binding \<Rightarrow> capture_widget env gp binding s) of
                       Some s' \<Rightarrow> (s', [])
                     | None \<Rightarrow>
                         if \<not> hasNes env \<or> \<not> isPlaying env \<or> isCollapsed env then (s, [])
                         else reconcile gp s)))"

text \<open>
  \<open>handleDisconnect\<close>, the same in both files: when the event is for the active gamepad the
  index, the connection flag, the label, the mapping and the active binding are cleared.
\<close>

definition handleDisconnect :: "nat \<Rightarrow> PadState \<Rightarrow> PadState \<times> runtime_call list" where
  "handleDisconnect event_index s =
     (if gamepadIndex s = Some event_index
      then (s\<lparr>gamepadIndex := None, gamepadConnected := False, gamepadLabel := None,
              mapping := Map.empty, activeBinding := None\<rparr>, [])
      else (s, []))"

text \<open>A run of ticks: the states are threaded, the calls to the runtime are collected in order.\<close>

fun run_ticks ::
  "('t \<Rightarrow> PadState \<Rightarrow> PadState \<times> runtime_call list) \<Rightarrow> 't list \<Rightarrow> PadState
     \<Rightarrow> PadState \<times> runtime_call list" where
  "run_ticks step [] s = (s, [])"
| "run_ticks step (t # ts) s =
     (let r1 = step t s; r2 = run_ticks step ts (fst r1) in (fst r2, snd r1 @ snd r2))"

text \<open>The state of a freshly mounted component.\<close>

definition initialPadState :: PadState where
  "initialPadState =
     \<lparr>gamepadIndex = None, gamepadConnected = False, gamepadLabel = None, mapping = Map.empty,
      activeBinding = None, waitingForRelease = False, pendingAdvance = None, bindingStep = 0,
      mappingDone = False, prevButtons = [],
      prevAxis = \<lparr>ax_up = False, ax_down = False, ax_left = False, ax_right = False\<rparr>,
      prevLogical = (\<lambda>_. False), storedMappings = Map.empty\<rparr>"


definition loadMappingForGamepad :: "string \<Rightarrow> PadState \<Rightarrow> NesMapping" where
  "loadMappingForGamepad ident s = (case storedMappings s ident of None \<Rightarrow> Map.empty | Some m \<Rightarrow> m)"

definition handleConnect :: "nat \<Rightarrow> string \<Rightarrow> PadState \<Rightarrow> PadState" where
  "handleConnect index ident s =
     s\<lparr>gamepadIndex := Some index, gamepadConnected := True, gamepadLabel := Some ident,
       mapping := loadMappingForGamepad ident s, activeBinding := None\<rparr>"

subsection \<open>Sample inputs\<close>

definition digital_button :: "bool \<Rightarrow> GamepadButton option" where
  "digital_button p = Some \<lparr>btn_pressed = p, btn_value = (if p then 1 else 0)\<rparr>"

definition digital_pad :: "bool list \<Rightarrow> Gamepad" where
  "digital_pad ps = \<lparr>pad_id = ''pad0'', pad_buttons = map digital_button ps, pad_axes = []\<rparr>"

definition playing_env :: PollEnv where
  "playing_env = \<lparr>hasGetGamepads = True, showMapperModal = False, isPlaying = True,
     isCollapsed = False, hasNes = True\<rparr>"

definition mapper_env :: PollEnv where
  "mapper_env = \<lparr>hasGetGamepads = True, showMapperModal = True, isPlaying = False,
     isCollapsed = False, hasNes = True\<rparr>"

definition connected_pad :: PadState where
  "connected_pad = handleConnect 0 ''pad0'' initialPadState"


definition custom_pad :: PadState where
  "custom_pad = connected_pad\<lparr>mapping := [A \<mapsto> ButtonEntry 0]\<rparr>"

text \<open>Press button \<open>i\<close> of an eight-button pad, then release everything, for \<open>i\<close> from 0 to 7.\<close>

definition one_round :: "PollEnv \<Rightarrow> nat \<Rightarrow> (PollEnv \<times> Gamepad option list) list" where
  "one_round env i =
     [(env, [Some (digital_pad (map (\<lambda>j. j = i) [0, 1, 2, 3, 4, 5, 6, 7]))]),
      (env, [Some (digital_pad (replicate 8 False))])]"

definition eight_rounds :: "PollEnv \<Rightarrow> (PollEnv \<times> Gamepad option list) list" where
  "eight_rounds env = concat (map (one_round env) [0, 1, 2, 3, 4, 5, 6, 7])"

text \<open>The pad with button 0 bound to A, after one tick on which button 0 is pressed.\<close>

definition held_pad :: PadState where
  "held_pad = fst (poll playing_env [Some (digital_pad [True])] custom_pad)"


subsection \<open>Counting and ordering the calls to the runtime\<close>

definition downs :: "nat \<Rightarrow> runtime_call list \<Rightarrow> nat" where
  "downs b cs = length (filter (\<lambda>c. c = ButtonDown 1 b) cs)"

definition ups :: "nat \<Rightarrow> runtime_call list \<Rightarrow> nat" where
  "ups b cs = length (filter (\<lambda>c. c = ButtonUp 1 b) cs)"

definition poll_tick :: "PollEnv \<times> Gamepad option list \<Rightarrow> PadState \<Rightarrow> PadState \<times> runtime_call list" where
  "poll_tick t s = poll (fst t) (snd t) s"

definition poll_widget_tick :: "PollEnv \<times> Gamepad option list \<Rightarrow> PadState \<Rightarrow> PadState \<times> runtime_call list" where
  "poll_widget_tick t s = poll_widget (fst t) (snd t) s"

text \<open>
  Whether the calls for button \<open>b\<close> alternate, starting from the held-state \<open>h\<close>
  (a down only when released, an up only when held), and the held-state they end in.
\<close>

fun alternates :: "nat \<Rightarrow> bool \<Rightarrow> runtime_call list \<Rightarrow> bool" where
  "alternates b h [] = True"
| "alternates b h (c # cs) =
     (if c = ButtonDown 1 b then \<not> h \<and> alternates b True cs
      else if c = ButtonUp 1 b then h \<and> alternates b False cs
      else alternates b h cs)"

fun held_after :: "nat \<Rightarrow> bool \<Rightarrow> runtime_call list \<Rightarrow> bool" where
  "held_after b h [] = h"
| "held_after b h (c # cs) =
     (if c = ButtonDown 1 b then held_after b True cs
      else if c = ButtonUp 1 b then held_after b False cs
      else held_after b h cs)"


definition calls_for :: "nat \<Rightarrow> runtime_call list \<Rightarrow> runtime_call list" where
  "calls_for b cs = filter (\<lambda>c. c = ButtonDown 1 b \<or> c = ButtonUp 1 b) cs"

definition edge_call :: "bool \<Rightarrow> bool \<Rightarrow> nat \<Rightarrow> runtime_call list" where
  "edge_call was now b =
     (if \<not> was \<and> now then [ButtonDown 1 b] else if was \<and> \<not> now then [ButtonUp 1 b] else [])"

text \<open>What one tick does for one logical button, as long as a custom mapping exists.\<close>

definition tick_ok :: "NesLogical \<Rightarrow> PadState \<Rightarrow> PadState \<times> runtime_call list \<Rightarrow> bool" where
  "tick_ok l s r =
     (hasCustomMapping (mapping (fst r))
      \<and> alternates (nesButtonForLogical l) (prevLogical s l) (snd r)
      \<and> held_after (nesButtonForLogical l) (prevLogical s l) (snd r) = prevLogical (fst r) l)"

definition step_frozen :: "PadState \<Rightarrow> PadState \<Rightarrow> bool" where
  "step_frozen s s' =
     (pendingAdvance s' = None \<and> bindingStep s' = bindingStep s
      \<and> mappingDone s' = mappingDone s \<and> activeBinding s' = activeBinding s)"


section \<open>The loader (src/unnamed/part_001) and the session's \<open>loadRom\<close> (src/unnamed/part_002)\<close>

datatype stub_message = PlaceholderMessage | InvalidRomMessage

text \<open>
  What \<open>loadNintendoRom\<close> resolves with: the object built by \<open>createStubEmulator\<close>, or the
  vendor's \<open>window.NINTENDO\<close>, known here by a handle.
\<close>

datatype NesInstance = StubEmulator stub_message | VendorInstance nat

text \<open>\<open>createStubEmulator(containerId, romName, message?)\<close>\<close>

definition createStubEmulator :: "stub_message option \<Rightarrow> NesInstance" where
  "createStubEmulator message =
     StubEmulator (case message of None \<Rightarrow> PlaceholderMessage | Some m \<Rightarrow> m)"

text \<open>\<open>__isStub\<close> is set by \<open>createStubEmulator\<close> only.\<close>

fun isStub :: "NesInstance \<Rightarrow> bool" where
  "isStub (StubEmulator m) = True"
| "isStub (VendorInstance h) = False"

text \<open>
  Button intake: the stub's \<open>buttonDown\<close> and \<open>buttonUp\<close> are \<open>() => {}\<close>; the vendor's
  runtime receives the call, recorded in the list of calls it has received.
\<close>

fun instance_buttonDown :: "NesInstance \<Rightarrow> nat \<Rightarrow> nat \<Rightarrow> runtime_call list \<Rightarrow> runtime_call list" where
  "instance_buttonDown (StubEmulator m) player button received = received"
| "instance_buttonDown (VendorInstance h) player button received = received @ [ButtonDown player button]"

fun instance_buttonUp :: "NesInstance \<Rightarrow> nat \<Rightarrow> nat \<Rightarrow> runtime_call list \<Rightarrow> runtime_call list" where
  "instance_buttonUp (StubEmulator m) player button received = received"
| "instance_buttonUp (VendorInstance h) player button received = received @ [ButtonUp player button]"

datatype 'a promise_result = Resolved 'a | Rejected

text \<open>
  What the vendor's \<open>embedNintendo\<close> does once called: it may call \<open>cbStarted\<close> (the value of
  \<open>window.NINTENDO\<close> at that moment is the argument, \<open>None\<close> when unset) and it may
  dispatch \<open>nes:embed-error\<close>.
\<close>

datatype embed_event = CbStarted "nat option" | EmbedError

text \<open>
  The wait for the vendor's script in \<open>loadNintendoScript\<close>: the promise resolves on the
  script's load event, rejects on its error event (or outside a browser), and never settles
  when neither event comes: the listeners put on a script tag that is already in the page
  are not called if the tag's event has fired before.
\<close>

datatype script_wait = ScriptLoaded | ScriptFailed | ScriptNeverSettles

record ScriptState =
  embedDefined :: bool
  scriptWait :: script_wait
  embedDefinedAfterLoad :: bool

text \<open>
  What \<open>loadNintendoRom\<close> meets once \<open>await ensureNintendoLoaded()\<close> has returned:
  \<open>embedNintendo\<close> says whether the value returned is the embed function rather than
  \<open>null\<close>; the ROM buffer is \<open>None\<close> when it is not an \<open>ArrayBuffer\<close>; the behaviour of
  the vendor's script is given by the events during the call of \<open>embedNintendo\<close>, whether
  the call then throws, the time in milliseconds the call takes, and the later events in
  the order they happen, each with its delay in milliseconds counted from the start of the
  call.
\<close>

record LoaderInput =
  inBrowser :: bool
  embedNintendo :: bool
  romBuffer :: "8 word list option"
  containerPresent :: bool
  embedSync :: "embed_event list"
  embedThrows :: bool
  embedReturnsAfter :: nat
  embedLater :: "(nat \<times> embed_event) list"

definition hasValidNesHeader :: "8 word list option \<Rightarrow> bool" where
  "hasValidNesHeader buffer =
     (case buffer of
        None \<Rightarrow> False
      | Some bs \<Rightarrow>
          if length bs < 16 then False
          else bs ! 0 = 0x4e \<and> bs ! 1 = 0x45 \<and> bs ! 2 = 0x53 \<and> bs ! 3 = 0x1a)"

text \<open>
  \<open>ensureNintendoLoaded\<close>, given \<open>isBrowser()\<close>: \<open>Some True\<close> when it returns the embed
  function, \<open>Some False\<close> when it returns \<open>null\<close>, \<open>None\<close> when its wait for the script
  never ends and it never returns.
\<close>

definition ensureNintendoLoaded :: "bool \<Rightarrow> ScriptState \<Rightarrow> bool option" where
  "ensureNintendoLoaded isBrowser sc =
     (if \<not> isBrowser then Some False
      else if embedDefined sc then Some True
      else (case scriptWait sc of
              ScriptNeverSettles \<Rightarrow> None
            | ScriptFailed \<Rightarrow> Some False
            | ScriptLoaded \<Rightarrow> Some (embedDefinedAfterLoad sc)))"

text \<open>
  The calls of \<open>handleResolve\<close> in the order they happen: the events of the embed call, the
  \<open>catch\<close> when the call throws, the later events that come before the timer, and the
  timer. The timer is set once the embed call has returned and fires 4000 ms after that, so
  a later event is ahead of it when its delay is at most the time the call took plus
  4000 ms. Only the first call resolves the promise (\<open>if (resolved) return\<close>).
\<close>

datatype resolve_source = BootStarted "nat option" | EmbedErrorEvent | EmbedThrew | BootTimeout

fun source_of_event :: "embed_event \<Rightarrow> resolve_source" where
  "source_of_event (CbStarted inst) = BootStarted inst"
| "source_of_event EmbedError = EmbedErrorEvent"

definition BOOT_TIMEOUT_MS :: nat where
  "BOOT_TIMEOUT_MS = 4000"

definition resolve_sources :: "LoaderInput \<Rightarrow> resolve_source list" where
  "resolve_sources inp =
     map source_of_event (embedSync inp)
     @ (if embedThrows inp then [EmbedThrew] else [])
     @ map (source_of_event \<circ> snd)
         (takeWhile (\<lambda>te. fst te \<le> embedReturnsAfter inp + BOOT_TIMEOUT_MS) (embedLater inp))
     @ [BootTimeout]"

fun instance_of_source :: "resolve_source \<Rightarrow> NesInstance" where
  "instance_of_source (BootStarted (Some h)) = VendorInstance h"
| "instance_of_source (BootStarted None) = createStubEmulator None"
| "instance_of_source EmbedErrorEvent = createStubEmulator None"
| "instance_of_source EmbedThrew = createStubEmulator None"
| "instance_of_source BootTimeout = createStubEmulator None"

fun handleResolve :: "resolve_source list \<Rightarrow> NesInstance" where
  "handleResolve [] = createStubEmulator None"
| "handleResolve (src # later) = instance_of_source src"

text \<open>
  \<open>loadNintendoRom\<close> from the point where \<open>await ensureNintendoLoaded()\<close> has returned:
  the promise's outcome, and whether \<open>embedNintendo\<close> was called with the buffer. No step
  is left unguarded, so no branch rejects.
\<close>

definition loadNintendoRom_resumed :: "LoaderInput \<Rightarrow> NesInstance promise_result \<times> bool" where
  "loadNintendoRom_resumed inp =
     (if \<not> inBrowser inp \<or> \<not> embedNintendo inp
         \<or> (case romBuffer inp of None \<Rightarrow> True | Some bs \<Rightarrow> length bs = 0)
      then (Resolved (createStubEmulator None), False)
      else if \<not> containerPresent inp then (Resolved (createStubEmulator None), False)
      else if \<not> hasValidNesHeader (romBuffer inp)
      then (Resolved (createStubEmulator (Some InvalidRomMessage)), False)
      else (Resolved (handleResolve (resolve_sources inp)), True))"

text \<open>
  \<open>loadNintendoRom\<close> as a whole: \<open>None\<close> is the promise that never settles, because
  \<open>ensureNintendoLoaded\<close> never returns; otherwise the function goes on with the value
  returned.
\<close>

definition loadNintendoRom ::
  "ScriptState \<Rightarrow> LoaderInput \<Rightarrow> NesInstance promise_result option \<times> bool" where
  "loadNintendoRom sc inp =
     (case ensureNintendoLoaded (inBrowser inp) sc of
        None \<Rightarrow> (None, False)
      | Some e \<Rightarrow>
          (let r = loadNintendoRom_resumed (inp\<lparr>embedNintendo := e\<rparr>) in (Some (fst r), snd r)))"

subsection \<open>The session and \<open>loadRom\<close>\<close>

datatype Status =
  Idle | LoadingRom | Ready | Running | Paused | StateLoadedPressResume | ErrorLoadingRom

text \<open>
  The state \<open>loadRom\<close> reads and writes: \<open>runningRef\<close> is \<open>running\<close>, the React state
  \<open>isPlaying\<close> is \<open>isPlayingState\<close>, \<open>nesRef\<close> is the emulator reference,
  \<open>window.NINTENDO_GAME_PAUSED\<close> (set by \<open>pauseNintendo\<close>, cleared by \<open>resumeNintendo\<close>) is
  \<open>gamePaused\<close>.
\<close>

record Session =
  status :: Status
  isPlayingState :: bool
  isLoading :: bool
  resumeFromState :: bool
  loadToken :: nat
  nesRef :: "NesInstance option"
  running :: bool
  gamePaused :: bool

text \<open>
  \<open>loadRom\<close> up to its first \<open>await\<close>: without a game nothing happens; otherwise the token is
  incremented and kept by the call, and the session shows the load.
\<close>

definition loadRom_begin :: "bool \<Rightarrow> Session \<Rightarrow> Session \<times> nat option" where
  "loadRom_begin hasGame s =
     (if \<not> hasGame then (s, None)
      else (let token = loadToken s + 1
            in (s\<lparr>loadToken := token, isLoading := True, status := LoadingRom, running := False,
                  isPlayingState := False\<rparr>, Some token)))"

text \<open>The fetch: a response that is not ok, or a fetch that throws, leaves the empty buffer.\<close>

datatype fetch_result = FetchOk "8 word list" | FetchNotOk | FetchThrew

fun fetched_buffer :: "fetch_result \<Rightarrow> 8 word list" where
  "fetched_buffer (FetchOk bytes) = bytes"
| "fetched_buffer FetchNotOk = []"
| "fetched_buffer FetchThrew = []"

text \<open>
  \<open>loadRom\<close> after \<open>await loadNintendoRom(...)\<close>, for the call that holds \<open>token\<close>: the
  \<open>try\<close> with its stale-token return, the \<open>catch\<close> and the \<open>finally\<close>. The second
  component is the value \<open>loadRom\<close> returns.
\<close>

definition loadRom_complete ::
  "bool \<Rightarrow> nat \<Rightarrow> NesInstance promise_result \<Rightarrow> Session \<Rightarrow> Session \<times> NesInstance option" where
  "loadRom_complete autoStart token result s =
     (case result of
        Rejected \<Rightarrow> (s\<lparr>status := ErrorLoadingRom, isLoading := False\<rparr>, None)
      | Resolved nes \<Rightarrow>
          if token \<noteq> loadToken s then (s\<lparr>isLoading := False\<rparr>, None)
          else (let s1 = s\<lparr>nesRef := Some nes\<rparr> in
                if isStub nes then (s1\<lparr>status := ErrorLoadingRom, isLoading := False\<rparr>, Some nes)
                else (let s2 = s1\<lparr>resumeFromState := False\<rparr> in
                      if autoStart
                      then (s2\<lparr>gamePaused := False, running := True, isPlayingState := True,
                               status := Running, isLoading := False\<rparr>, Some nes)
                      else (s2\<lparr>gamePaused := True, running := False, isPlayingState := False,
                               status := Ready, isLoading := False\<rparr>, Some nes))))"

text \<open>
  The whole second half of a \<open>loadRom\<close> call, which runs when
  \<open>await loadNintendoRom(...)\<close> returns, so with the loader past its wait for the script:
  the fetched buffer goes to the loader, its outcome to the code after the \<open>await\<close>.
\<close>

definition loadRom_finish ::
  "bool \<Rightarrow> nat \<Rightarrow> fetch_result \<Rightarrow> LoaderInput \<Rightarrow> Session \<Rightarrow> Session \<times> NesInstance option" where
  "loadRom_finish autoStart token fetched inp s =
     loadRom_complete autoStart token
       (fst (loadNintendoRom_resumed (inp\<lparr>romBuffer := Some (fetched_buffer fetched)\<rparr>))) s"

subsection \<open>Sample inputs\<close>

definition bad_rom_input :: LoaderInput where
  "bad_rom_input =
     \<lparr>inBrowser = True, embedNintendo = True,
      romBuffer = Some (replicate 16 0), containerPresent = True,
      embedSync = [], embedThrows = False, embedReturnsAfter = 0,
      embedLater = []\<rparr>"

definition good_rom :: "8 word list" where
  "good_rom = [0x4e, 0x45, 0x53, 0x1a] @ replicate 12 0"

definition silent_embed_input :: LoaderInput where
  "silent_embed_input =
     \<lparr>inBrowser = True, embedNintendo = True,
      romBuffer = Some good_rom, containerPresent = True,
      embedSync = [], embedThrows = False, embedReturnsAfter = 0,
      embedLater = [(5000, CbStarted (Some 7))]\<rparr>"

definition booting_input :: LoaderInput where
  "booting_input = silent_embed_input\<lparr>embedLater := [(120, CbStarted (Some 7))]\<rparr>"

definition boot_then_throw_input :: LoaderInput where
  "boot_then_throw_input = silent_embed_input\<lparr>embedSync := [CbStarted (Some 7)], embedThrows := True\<rparr>"

definition boot_then_error_input :: LoaderInput where
  "boot_then_error_input =
     silent_embed_input\<lparr>embedLater := [(4000, CbStarted (Some 7)), (4000, EmbedError)]\<rparr>"

definition slow_call_input :: LoaderInput where
  "slow_call_input =
     silent_embed_input\<lparr>embedReturnsAfter := 30, embedLater := [(4010, CbStarted (Some 7))]\<rparr>"

definition empty_rom_input :: LoaderInput where
  "empty_rom_input = silent_embed_input\<lparr>romBuffer := Some []\<rparr>"

definition ready_script :: ScriptState where
  "ready_script = \<lparr>embedDefined = True, scriptWait = ScriptLoaded, embedDefinedAfterLoad = True\<rparr>"

definition stalled_script :: ScriptState where
  "stalled_script =
     \<lparr>embedDefined = False, scriptWait = ScriptNeverSettles, embedDefinedAfterLoad = False\<rparr>"

definition initialSession :: Session where
  "initialSession =
     \<lparr>status = Idle, isPlayingState = False, isLoading = False, resumeFromState = False,
      loadToken = 0, nesRef = None, running = False, gamePaused = False\<rparr>"


section \<open>Snapshots, save slots and stored scores\<close>

subsection \<open>JavaScript values\<close>

datatype jsnumber = Finite real | PosInfinity | NegInfinity | NaN

text \<open>
  A function is known by a handle: what it does when called is not part of the value.
\<close>

datatype jsval =
    JNull
  | JBool bool
  | JNum jsnumber
  | JStr string
  | JBigInt int
  | JFunction nat
  | JArr "jsval list"
  | JObj "(string \<times> jsval) list"

subsection \<open>The store of objects\<close>

text \<open>
  Objects live in a store and are known by their address, so that the object the runtime
  returns from \<open>toJSON()\<close> and the object kept in a slot can be the same object or two
  objects. A copy is a new object at the next free address. The runtime changing its own
  object is an update of the store at that address.
\<close>

type_synonym store = "jsval list"

definition deref :: "store \<Rightarrow> nat \<Rightarrow> jsval" where
  "deref h r = (if r < length h then h ! r else JNull)"

definition mutate :: "nat \<Rightarrow> jsval \<Rightarrow> store \<Rightarrow> store" where
  "mutate r v h = h[r := v]"

subsection \<open>Save slots (\<open>cloneStateSnapshot\<close> and \<open>handleSaveState\<close>, src/unnamed/part_002)\<close>

text \<open>
  What \<open>handleSaveState\<close> meets. The platform's functions are parameters: \<open>structuredClone\<close>
  is \<open>None\<close> when \<open>typeof structuredClone\<close> is not \<open>"function"\<close>, and gives \<open>None\<close> when it
  throws; \<open>JSON.stringify\<close> and \<open>JSON.parse\<close> give \<open>None\<close> when they throw. The result
  \<open>undefined\<close> of \<open>JSON.stringify\<close> is the text \<open>undefined\<close>, which is what \<open>JSON.parse\<close>
  and \<open>localStorage.setItem\<close> make of it. \<open>storageWritable\<close> says that
  \<open>localStorage.setItem\<close> does not throw.
\<close>

record SaveEnv =
  hasGame :: bool
  isAuthed :: bool
  structuredClone :: "(jsval \<Rightarrow> jsval option) option"
  stringifyJSON :: "jsval \<Rightarrow> string option"
  parseJSON :: "string \<Rightarrow> jsval option"
  hasWindow :: bool
  storageWritable :: bool
  now :: nat

text \<open>
  The first \<open>try\<close> of \<open>cloneStateSnapshot\<close>: \<open>None\<close> when \<open>structuredClone\<close> is not a
  function or throws, so that the code goes on to the second \<open>try\<close>.
\<close>

definition try_structuredClone :: "SaveEnv \<Rightarrow> jsval \<Rightarrow> jsval option" where
  "try_structuredClone env v = (case structuredClone env of None \<Rightarrow> None | Some clone \<Rightarrow> clone v)"

text \<open>\<open>JSON.parse(JSON.stringify(state))\<close>, \<open>None\<close> when either call throws.\<close>

definition json_roundtrip :: "SaveEnv \<Rightarrow> jsval \<Rightarrow> jsval option" where
  "json_roundtrip env v = (case stringifyJSON env v of None \<Rightarrow> None | Some text \<Rightarrow> parseJSON env text)"

text \<open>
  \<open>cloneStateSnapshot\<close>: the result of \<open>structuredClone\<close> when it is a function and does
  not throw, else the result of the JSON round trip when it does not throw, else the very
  object it was given.
\<close>

definition cloneStateSnapshot :: "SaveEnv \<Rightarrow> store \<Rightarrow> nat \<Rightarrow> store \<times> nat" where
  "cloneStateSnapshot env h state =
     (let v = deref h state in
      case try_structuredClone env v of
        Some c \<Rightarrow> (h @ [c], length h)
      | None \<Rightarrow>
          (case json_roundtrip env v of
             Some c \<Rightarrow> (h @ [c], length h)
           | None \<Rightarrow> (h, state)))"

record SavedSlot =
  slot_state :: nat
  savedAt :: nat
  slot_name :: string

text \<open>
  \<open>saveSlots\<close> is the React state (an object, so an association list in property order),
  \<open>storedSlots\<close> the text \<open>localStorage\<close> holds under \<open>stateKeyForRom(...)\<close>, \<open>None\<close> when
  it holds none.
\<close>

record SaveSession =
  saveSlots :: "(string \<times> SavedSlot) list"
  selectedSlot :: string
  objects :: store
  storedSlots :: "string option"

definition slotOrder :: "string list" where
  "slotOrder = [''slot1'', ''slot2'', ''slot3'']"

text \<open>
  The object \<open>next\<close> as \<open>JSON.stringify(next)\<close> finds it: each slot is
  \<open>{ state, savedAt, slot }\<close>, the state being the object the slot refers to, as it is at
  that moment.
\<close>

definition slot_object :: "store \<Rightarrow> SavedSlot \<Rightarrow> jsval" where
  "slot_object h sl =
     JObj [(''state'', deref h (slot_state sl)),
           (''savedAt'', JNum (Finite (real (savedAt sl)))),
           (''slot'', JStr (slot_name sl))]"

definition slots_entries :: "store \<Rightarrow> (string \<times> SavedSlot) list \<Rightarrow> (string \<times> jsval) list" where
  "slots_entries h slots = map (\<lambda>kv. (fst kv, slot_object h (snd kv))) slots"

definition slots_object :: "store \<Rightarrow> (string \<times> SavedSlot) list \<Rightarrow> jsval" where
  "slots_object h slots = JObj (slots_entries h slots)"

text \<open>
  \<open>handleSaveState\<close>. \<open>exported\<close> is the address of the object \<open>nesRef.current.toJSON()\<close>
  returns, \<open>None\<close> when there is no instance or no \<open>toJSON\<close>.
\<close>

definition handleSaveState :: "SaveEnv \<Rightarrow> nat option \<Rightarrow> SaveSession \<Rightarrow> SaveSession" where
  "handleSaveState env exported s =
     (case exported of
        None \<Rightarrow> s
      | Some state \<Rightarrow>
          if \<not> hasGame env \<or> \<not> isAuthed env then s
          else (let c = cloneStateSnapshot env (objects s) state;
                    snapshot = snd c;
                    empty = (if map_of (saveSlots s) (selectedSlot s) \<noteq> None
                             then find (\<lambda>k. map_of (saveSlots s) k = None) slotOrder
                             else None);
                    targetSlot = (case empty of Some e \<Rightarrow> e | None \<Rightarrow> selectedSlot s);
                    next = AList.update targetSlot
                             \<lparr>slot_state = snapshot, savedAt = now env, slot_name = targetSlot\<rparr>
                             (saveSlots s);
                    written = (if hasWindow env
                               then (case stringifyJSON env (slots_object (fst c) next) of
                                       None \<Rightarrow> storedSlots s
                                     | Some text \<Rightarrow>
                                         if storageWritable env then Some text else storedSlots s)
                               else storedSlots s)
                in s\<lparr>objects := fst c, selectedSlot := targetSlot, saveSlots := next,
                     storedSlots := written\<rparr>))"

text \<open>What a slot holds: the object its \<open>state\<close> refers to, as it is now.\<close>

definition slot_content :: "SaveSession \<Rightarrow> string \<Rightarrow> jsval option" where
  "slot_content s k = map_option (\<lambda>sl. deref (objects s) (slot_state sl)) (map_of (saveSlots s) k)"

subsection \<open>Stored scores (\<open>loadStoredScores\<close>, src/lib/nes.ts)\<close>

definition NES_SCORE_STORAGE_PREFIX :: string where
  "NES_SCORE_STORAGE_PREFIX = ''nesWidgetScores:''"

text \<open>
  A character here is a UTF-16 code unit below 256. Of the white space and the line
  terminators that \<open>String.prototype.trim\<close> strips, these are the ones in that range: tab,
  line feed, vertical tab, form feed, carriage return, space and no-break space (U+00A0).
\<close>

definition js_whitespace :: "char \<Rightarrow> bool" where
  "js_whitespace c =
     (c \<in> set [CHR '' '', CHR 0x09, CHR 0x0A, CHR 0x0B, CHR 0x0C, CHR 0x0D, CHR 0xA0])"

definition js_trim :: "string \<Rightarrow> string" where
  "js_trim s = rev (dropWhile js_whitespace (rev (dropWhile js_whitespace s)))"

text \<open>\<open>userUuid?.trim() || 'anon'\<close>\<close>

definition score_owner :: "string option \<Rightarrow> string" where
  "score_owner userUuid =
     (case userUuid of
        None \<Rightarrow> ''anon''
      | Some u \<Rightarrow> if js_trim u = [] then ''anon'' else js_trim u)"

definition scoreStorageKey :: "string \<Rightarrow> string option \<Rightarrow> string" where
  "scoreStorageKey romFile userUuid =
     NES_SCORE_STORAGE_PREFIX @ score_owner userUuid @ '':'' @ romFile"

text \<open>A string or \<open>null\<close> in a condition: \<open>null\<close> and the empty string are false.\<close>

definition truthy :: "string option \<Rightarrow> bool" where
  "truthy x = (case x of None \<Rightarrow> False | Some t \<Rightarrow> t \<noteq> [])"

text \<open>\<open>typeof v === 'number' && Number.isFinite(v)\<close>\<close>

fun is_finite_number :: "jsval \<Rightarrow> bool" where
  "is_finite_number (JNum (Finite x)) = True"
| "is_finite_number v = False"

text \<open>
  The body of the \<open>try\<close>: \<open>None\<close> is a throw, from \<open>localStorage\<close> (no store at all) or
  from \<open>JSON.parse\<close>, which is a parameter (\<open>None\<close> is its \<open>SyntaxError\<close>).
\<close>

definition loadStoredScores_try ::
  "(string \<Rightarrow> jsval option) \<Rightarrow> (string \<rightharpoonup> string) option \<Rightarrow> string \<Rightarrow> string option
     \<Rightarrow> jsval list option" where
  "loadStoredScores_try JSON_parse localStorage romFile userUuid =
     (case localStorage of
        None \<Rightarrow> None
      | Some items \<Rightarrow>
          (let raw = items (scoreStorageKey romFile userUuid);
               fallbackRaw = (if \<not> truthy raw \<and> truthy userUuid
                              then items (NES_SCORE_STORAGE_PREFIX @ romFile) else None);
               parsed = (case (if truthy raw then raw
                               else if truthy fallbackRaw then fallbackRaw else None) of
                           Some text \<Rightarrow> JSON_parse text
                         | None \<Rightarrow> Some (JArr []))
           in case parsed of
                None \<Rightarrow> None
              | Some (JArr xs) \<Rightarrow> Some (filter is_finite_number xs)
              | Some other \<Rightarrow> Some []))"

definition loadStoredScores ::
  "bool \<Rightarrow> (string \<Rightarrow> jsval option) \<Rightarrow> (string \<rightharpoonup> string) option \<Rightarrow> string \<Rightarrow> string option
     \<Rightarrow> jsval list" where
  "loadStoredScores isBrowser JSON_parse localStorage romFile userUuid =
     (if \<not> isBrowser then []
      else (case loadStoredScores_try JSON_parse localStorage romFile userUuid of
              None \<Rightarrow> []
            | Some scores \<Rightarrow> scores))"

subsection \<open>Sample inputs\<close>

definition plain_snapshot :: jsval where
  "plain_snapshot = JObj [(''frame'', JNum (Finite 1)), (''ram'', JArr [JNum (Finite 0), JNum (Finite 255)])]"

definition ram_snapshot :: jsval where
  "ram_snapshot = JArr [JNum (Finite 0), JNum (Finite 255)]"

definition exotic_snapshot :: jsval where
  "exotic_snapshot = JObj [(''frame'', JNum (Finite 1)), (''onFrame'', JFunction 0), (''cycles'', JBigInt 5)]"

definition later_frame :: jsval where
  "later_frame = JObj [(''frame'', JNum (Finite 2))]"

text \<open>
  \<open>structuredClone\<close> copies every value of this shape, except that it throws a
  \<open>DataCloneError\<close> when it meets a function.
\<close>

fun cloneable :: "jsval \<Rightarrow> bool" where
  "cloneable (JFunction f) = False"
| "cloneable (JArr xs) = list_all cloneable xs"
| "cloneable (JObj kvs) = list_all (\<lambda>kv. cloneable (snd kv)) kvs"
| "cloneable v = True"

definition sample_structuredClone :: "jsval \<Rightarrow> jsval option" where
  "sample_structuredClone v = (if cloneable v then Some v else None)"

text \<open>A slot of \<open>next\<close> saved at 1000 ms, as \<open>JSON.stringify\<close> finds it.\<close>

definition sample_entry :: "string \<Rightarrow> jsval \<Rightarrow> string \<times> jsval" where
  "sample_entry k v = (k, JObj [(''state'', v), (''savedAt'', JNum (Finite 1000)), (''slot'', JStr k)])"

definition plain_slots_text :: string where
  \<open>plain_slots_text = ''{"slot1":{"state":{"frame":1,"ram":[0,255]},"savedAt":1000,"slot":"slot1"}}''\<close>

definition ram_slots_text :: string where
  \<open>ram_slots_text = ''{"slot1":{"state":[0,255],"savedAt":1000,"slot":"slot1"}}''\<close>

definition shared_slots_text :: string where
  \<open>shared_slots_text = ''{"slot1":{"state":{"frame":2},"savedAt":1000,"slot":"slot1"},"slot2":{"state":{"frame":2},"savedAt":1000,"slot":"slot2"}}''\<close>

text \<open>
  \<open>JSON.stringify\<close> at the values of the examples, as a table; a value outside the table
  is left as a throw, which is what \<open>JSON.stringify\<close> does at every value that holds a
  BigInt, such as \<open>exotic_snapshot\<close>.
\<close>

definition sample_stringify :: "jsval \<Rightarrow> string option" where
  "sample_stringify v =
     (if v = ram_snapshot then Some ''[0,255]''
      else if v = JObj [sample_entry ''slot1'' plain_snapshot] then Some plain_slots_text
      else if v = JObj [sample_entry ''slot1'' ram_snapshot] then Some ram_slots_text
      else if v = JObj [sample_entry ''slot1'' later_frame, sample_entry ''slot2'' later_frame]
        then Some shared_slots_text
      else None)"

text \<open>\<open>JSON.parse\<close> at the texts of the examples, as a table; any other text is left as a throw.\<close>

definition sample_parse :: "string \<Rightarrow> jsval option" where
  "sample_parse text =
     (if text = ''[100,null,1e999,250.5]''
        then Some (JArr [JNum (Finite 100), JNull, JNum PosInfinity, JNum (Finite 250.5)])
      else if text = ''[0,255]'' then Some (JArr [JNum (Finite 0), JNum (Finite 255)])
      else if text = ''{}'' then Some (JObj [])
      else None)"

definition save_env :: SaveEnv where
  "save_env = \<lparr>hasGame = True, isAuthed = True, structuredClone = Some sample_structuredClone,
     stringifyJSON = sample_stringify, parseJSON = sample_parse, hasWindow = True,
     storageWritable = True, now = 1000\<rparr>"

text \<open>A browser without \<open>structuredClone\<close>.\<close>

definition older_env :: SaveEnv where
  "older_env = save_env\<lparr>structuredClone := None\<rparr>"

definition empty_slots :: "store \<Rightarrow> SaveSession" where
  "empty_slots h = \<lparr>saveSlots = [], selectedSlot = ''slot1'', objects = h, storedSlots = None\<rparr>"

definition sample_items :: "string \<rightharpoonup> string" where
  "sample_items = [''nesWidgetScores:anon:smb.nes'' \<mapsto> ''[100,null,1e999,250.5]'']"

definition two_saves :: SaveSession where
  "two_saves =
     \<lparr>saveSlots = [(''slot1'', \<lparr>slot_state = 1, savedAt = 10, slot_name = ''slot1''\<rparr>),
                   (''slot3'', \<lparr>slot_state = 2, savedAt = 20, slot_name = ''slot3''\<rparr>)],
      selectedSlot = ''slot1'', objects = [plain_snapshot, later_frame, later_frame],
      storedSlots = None\<rparr>"

definition three_saves :: SaveSession where
  "three_saves =
     \<lparr>saveSlots = [(''slot1'', \<lparr>slot_state = 1, savedAt = 10, slot_name = ''slot1''\<rparr>),
                   (''slot2'', \<lparr>slot_state = 2, savedAt = 20, slot_name = ''slot2''\<rparr>),
                   (''slot3'', \<lparr>slot_state = 2, savedAt = 30, slot_name = ''slot3''\<rparr>)],
      selectedSlot = ''slot2'', objects = [plain_snapshot, later_frame, later_frame],
      storedSlots = None\<rparr>"

definition legacy_items :: "string \<rightharpoonup> string" where
  "legacy_items = [''nesWidgetScores:smb.nes'' \<mapsto> ''[100,null,1e999,250.5]'']"


section \<open>Properties of the SMB score decoder\<close>

lemma smb_digit_loop_rejects:
  "j < k \<Longrightarrow> mem_read m (SMB_SCORE_START + (i + j)) AND 0x0f > 9
     \<Longrightarrow> smb_digit_loop m i k digits = None"
proof (induction k arbitrary: i j digits)
  case 0
  then show ?case by simp
next
  case (Suc k)
  show ?case
  proof (cases j)
    case 0
    with Suc.prems show ?thesis by (simp add: Let_def)
  next
    case (Suc j')
    with Suc.prems have "j' < k"
      and "mem_read m (SMB_SCORE_START + (Suc i + j')) AND 0x0f > 9"
      by simp_all
    then have "smb_digit_loop m (Suc i) k (digits @ [unat (mem_read m (SMB_SCORE_START + i) AND 0x0f)]) = None"
      by (rule Suc.IH)
    then show ?thesis by (simp add: Let_def)
  qed
qed

lemma mem_read_at_base:
  "length pre = SMB_SCORE_START \<Longrightarrow> j < length bs
     \<Longrightarrow> mem_read (pre @ bs @ post) (SMB_SCORE_START + j) = bs ! j"
  by (simp add: mem_read_def nth_append)

lemma smb_example_digits:
  assumes "length pre = SMB_SCORE_START"
  shows "smb_digit_loop (pre @ [0x01, 0x02, 0x03, 0x00, 0x00, 0x00] @ post) 0 SMB_SCORE_DIGITS []
           = Some [1, 2, 3, 0, 0, 0]"
proof -
  let ?m = "pre @ [0x01, 0x02, 0x03, 0x00, 0x00, 0x00] @ post"
  have r: "mem_read ?m (SMB_SCORE_START + j) = [0x01, 0x02, 0x03, 0x00, 0x00, 0x00] ! j"
    if "j < 6" for j
    using mem_read_at_base [OF assms, of j "[0x01, 0x02, 0x03, 0x00, 0x00, 0x00]" post] that
    by simp
  have r0: "mem_read ?m SMB_SCORE_START = 1"
    using r [of 0] by simp
  have r1: "mem_read ?m (Suc SMB_SCORE_START) = 2"
    using r [of "Suc 0"] by simp
  have r2: "mem_read ?m (Suc (Suc SMB_SCORE_START)) = 3"
    using r [of "Suc (Suc 0)"] by simp
  have r3: "mem_read ?m (Suc (Suc (Suc SMB_SCORE_START))) = 0"
    using r [of "Suc (Suc (Suc 0))"] by simp
  have r4: "mem_read ?m (Suc (Suc (Suc (Suc SMB_SCORE_START)))) = 0"
    using r [of "Suc (Suc (Suc (Suc 0)))"] by simp
  have r5: "mem_read ?m (Suc (Suc (Suc (Suc (Suc SMB_SCORE_START))))) = 0"
    using r [of "Suc (Suc (Suc (Suc (Suc 0))))"] by simp
  have six: "SMB_SCORE_DIGITS = Suc (Suc (Suc (Suc (Suc (Suc 0)))))"
    by (simp add: SMB_SCORE_DIGITS_def)
  show ?thesis
    unfolding six
    by (simp add: Let_def r0 r1 r2 r3 r4 r5 del: append.simps)
qed

lemma smb_example_parse:
  "parseInt10 (concat (map digit_str [1, 2, 3, 0, 0, 0]) @ ''0'') = Some 1230000"
  by code_simp

lemma smb_digit_loop_low_nibbles:
  "(\<And>j. j < k \<Longrightarrow> mem_read m (SMB_SCORE_START + (i + j)) AND 0x0f
                      = mem_read m' (SMB_SCORE_START + (i + j)) AND 0x0f)
     \<Longrightarrow> smb_digit_loop m i k digits = smb_digit_loop m' i k digits"
proof (induction k arbitrary: i digits)
  case 0
  show ?case by simp
next
  case (Suc k)
  have here: "mem_read m (SMB_SCORE_START + i) AND 0x0f = mem_read m' (SMB_SCORE_START + i) AND 0x0f"
    using Suc.prems [of 0] by simp
  have "mem_read m (SMB_SCORE_START + (Suc i + j)) AND 0x0f
      = mem_read m' (SMB_SCORE_START + (Suc i + j)) AND 0x0f" if "j < k" for j
    using Suc.prems [of "Suc j"] that by simp
  then have "smb_digit_loop m (Suc i) k ds = smb_digit_loop m' (Suc i) k ds" for ds
    by (rule Suc.IH)
  with here show ?case by (simp add: Let_def)
qed

text \<open>
  C6, amended. The decoder reads one digit per byte, the low nibble. With the six bytes
  01 02 03 00 00 00 at address 0x07DD (whatever the rest of the memory holds) it returns
  1230000. Whenever the low nibble of the byte at any of the six positions is 0x0A or more,
  the whole read returns no score. The high nibble of a byte is never examined: two memories
  whose six bytes agree in their low nibbles decode alike.
\<close>

theorem smb_score_decode:
  "(length pre = SMB_SCORE_START \<longrightarrow>
      readSmbScoreFromMemory (Some (pre @ [0x01, 0x02, 0x03, 0x00, 0x00, 0x00] @ post))
        = Some 1230000)
   \<and> (j < SMB_SCORE_DIGITS \<and> mem_read m (SMB_SCORE_START + j) AND 0x0f \<ge> 0x0A
        \<longrightarrow> readSmbScoreFromMemory (Some m) = None)
   \<and> ((\<forall>j < SMB_SCORE_DIGITS. mem_read m (SMB_SCORE_START + j) AND 0x0f
                                = mem_read m' (SMB_SCORE_START + j) AND 0x0f)
        \<longrightarrow> readSmbScoreFromMemory (Some m) = readSmbScoreFromMemory (Some m'))"
proof (intro conjI impI)
  assume "length pre = SMB_SCORE_START"
  then have "smb_digit_loop (pre @ [0x01, 0x02, 0x03, 0x00, 0x00, 0x00] @ post) 0
      SMB_SCORE_DIGITS [] = Some [1, 2, 3, 0, 0, 0]"
    by (rule smb_example_digits)
  then show "readSmbScoreFromMemory (Some (pre @ [0x01, 0x02, 0x03, 0x00, 0x00, 0x00] @ post))
        = Some 1230000"
    using smb_example_parse
    by (simp add: readSmbScoreFromMemory_def del: append.simps)
next
  assume a: "j < SMB_SCORE_DIGITS \<and> mem_read m (SMB_SCORE_START + j) AND 0x0f \<ge> 0x0A"
  then have "mem_read m (SMB_SCORE_START + (0 + j)) AND 0x0f > 9"
    by (simp add: word_less_def word_le_def)
  with a have "smb_digit_loop m 0 SMB_SCORE_DIGITS [] = None"
    using smb_digit_loop_rejects by blast
  then show "readSmbScoreFromMemory (Some m) = None"
    by (simp add: readSmbScoreFromMemory_def)
next
  assume "\<forall>j < SMB_SCORE_DIGITS. mem_read m (SMB_SCORE_START + j) AND 0x0f
                                = mem_read m' (SMB_SCORE_START + j) AND 0x0f"
  then have "smb_digit_loop m 0 SMB_SCORE_DIGITS [] = smb_digit_loop m' 0 SMB_SCORE_DIGITS []"
    by (intro smb_digit_loop_low_nibbles) simp
  then show "readSmbScoreFromMemory (Some m) = readSmbScoreFromMemory (Some m')"
    by (simp add: readSmbScoreFromMemory_def)
qed

text \<open>
  The amended C6 at a memory of zeros up to 0x07DD followed by the six bytes; at a memory
  with the low nibble 0x0B in the fifth byte; and at the two first bytes A1 and 01, which
  decode alike.
\<close>

theorem smb_score_decode_witness:
  "readSmbScoreFromMemory (Some (replicate 0x07dd 0 @ [0x01, 0x02, 0x03, 0x00, 0x00, 0x00] @ [0xff]))
     = Some 1230000
   \<and> readSmbScoreFromMemory (Some (replicate 0x07dd 0 @ [0x01, 0x02, 0x03, 0x00, 0x0b, 0x00])) = None
   \<and> readSmbScoreFromMemory (Some (replicate 0x07dd 0 @ [0xA1, 0x02, 0x03, 0x00, 0x00, 0x00]))
     = readSmbScoreFromMemory (Some (replicate 0x07dd 0 @ [0x01, 0x02, 0x03, 0x00, 0x00, 0x00]))"
proof -
  have l: "length (replicate 0x07dd (0::8 word)) = SMB_SCORE_START"
    by (simp add: SMB_SCORE_START_def)
  have n: "(4::nat) < SMB_SCORE_DIGITS
     \<and> mem_read (replicate 0x07dd 0 @ [0x01, 0x02, 0x03, 0x00, 0x0b, 0x00]) (SMB_SCORE_START + 4)
         AND 0x0f \<ge> 0x0A"
    by (simp add: SMB_SCORE_DIGITS_def SMB_SCORE_START_def mem_read_def nth_append)
  have r: "mem_read (replicate 0x07dd 0 @ bs) (SMB_SCORE_START + j) = bs ! j"
    if "j < length bs" for j and bs :: "8 word list"
    using mem_read_at_base [OF l, of j bs "[]"] that by simp
  have e: "\<forall>j < SMB_SCORE_DIGITS.
      mem_read (replicate 0x07dd 0 @ [0xA1, 0x02, 0x03, 0x00, 0x00, 0x00]) (SMB_SCORE_START + j) AND 0x0f
      = mem_read (replicate 0x07dd 0 @ [0x01, 0x02, 0x03, 0x00, 0x00, 0x00]) (SMB_SCORE_START + j) AND 0x0f"
  proof (intro allI impI)
    fix j
    assume "j < SMB_SCORE_DIGITS"
    then have j: "j < 6" by (simp add: SMB_SCORE_DIGITS_def)
    then have "j = 0 \<or> 0 < j" by auto
    then show "mem_read (replicate 0x07dd 0 @ [0xA1, 0x02, 0x03, 0x00, 0x00, 0x00]) (SMB_SCORE_START + j) AND 0x0f
      = mem_read (replicate 0x07dd 0 @ [0x01, 0x02, 0x03, 0x00, 0x00, 0x00]) (SMB_SCORE_START + j) AND 0x0f"
      using j by (auto simp: r nth_Cons')
  qed
  show ?thesis
    using smb_score_decode [of "replicate 0x07dd 0" "[0xff]" 4
        "replicate 0x07dd 0 @ [0x01, 0x02, 0x03, 0x00, 0x0b, 0x00]"]
      smb_score_decode [of "replicate 0x07dd 0" "[]" 0
        "replicate 0x07dd 0 @ [0xA1, 0x02, 0x03, 0x00, 0x00, 0x00]"
        "replicate 0x07dd 0 @ [0x01, 0x02, 0x03, 0x00, 0x00, 0x00]"] l n e
    by blast
qed

text \<open>
  C6 as stated fails for the high nibble: the first byte A1 has the nibble 0x0A, and the
  read still returns 1230000.
\<close>

theorem smb_high_nibble_counterexample:
  "drop_bit 4 (0xA1 :: 8 word) = 0x0A
   \<and> readSmbScoreFromMemory (Some (replicate 0x07dd 0 @ [0xA1, 0x02, 0x03, 0x00, 0x00, 0x00]))
       = Some 1230000"
  by code_simp


section \<open>Properties of the input reconciler and of guided mapping\<close>

lemma alternates_append:
  "alternates b h (xs @ ys) = (alternates b h xs \<and> alternates b (held_after b h xs) ys)"
  by (induction xs arbitrary: h) auto

lemma held_after_append:
  "held_after b h (xs @ ys) = held_after b (held_after b h xs) ys"
  by (induction xs arbitrary: h) auto

lemma alternates_net:
  "alternates b h cs \<Longrightarrow>
     int (downs b cs) + (if h then 1 else 0) - int (ups b cs) = (if held_after b h cs then 1 else 0)"
proof (induction cs arbitrary: h)
  case Nil
  then show ?case by (simp add: downs_def ups_def)
next
  case (Cons c cs)
  consider (down) "c = ButtonDown 1 b" | (up) "c = ButtonUp 1 b"
    | (other) "c \<noteq> ButtonDown 1 b" "c \<noteq> ButtonUp 1 b"
    by blast
  then show ?case
  proof cases
    case down
    with Cons.prems have "\<not> h" and "alternates b True cs" by simp_all
    from Cons.IH [OF this(2)] down \<open>\<not> h\<close> show ?thesis
      by (simp add: downs_def ups_def)
  next
    case up
    with Cons.prems have "h" and "alternates b False cs" by simp_all
    from Cons.IH [OF this(2)] up \<open>h\<close> show ?thesis
      by (simp add: downs_def ups_def)
  next
    case other
    with Cons.prems have "alternates b h cs" by simp
    from Cons.IH [OF this] other show ?thesis
      by (simp add: downs_def ups_def)
  qed
qed

lemma alternates_prefix:
  "alternates b h cs \<Longrightarrow> prefix p cs \<Longrightarrow> alternates b h p"
  by (auto simp: prefix_def alternates_append)

lemma alternates_bound:
  assumes "alternates b False cs" and "prefix p cs"
  shows "int (downs b p) - int (ups b p) \<in> {0, 1}"
proof -
  have "alternates b False p"
    using assms by (rule alternates_prefix)
  from alternates_net [OF this] show ?thesis
    by (simp split: if_splits)
qed

lemma nesButtonForLogical_inj:
  "nesButtonForLogical l = nesButtonForLogical l' \<Longrightarrow> l = l'"
  by (cases l; cases l')
     (simp_all add: BUTTON_A_def BUTTON_B_def BUTTON_SELECT_def BUTTON_START_def BUTTON_UP_def
        BUTTON_DOWN_def BUTTON_LEFT_def BUTTON_RIGHT_def)

lemma reconcile_custom_alternates:
  "alternates (nesButtonForLogical l) (prev l) (snd (reconcile_custom m gp ls prev))
   \<and> held_after (nesButtonForLogical l) (prev l) (snd (reconcile_custom m gp ls prev))
       = fst (reconcile_custom m gp ls prev) l"
proof (induction ls arbitrary: prev)
  case Nil
  then show ?case by simp
next
  case (Cons x ls)
  define p where "p = isPressedLogical m gp x"
  define prev' where "prev' = prev(x := p)"
  define r where "r = reconcile_custom m gp ls prev'"
  have ih: "alternates (nesButtonForLogical l) (prev' l) (snd r)
      \<and> held_after (nesButtonForLogical l) (prev' l) (snd r) = fst r l"
    unfolding r_def by (rule Cons.IH)
  show ?case
  proof (cases "p = prev x")
    case True
    then show ?thesis using Cons.IH [of prev] by (simp add: p_def)
  next
    case False
    then have step: "reconcile_custom m gp (x # ls) prev
        = (fst r, (if p then ButtonDown 1 (nesButtonForLogical x)
                   else ButtonUp 1 (nesButtonForLogical x)) # snd r)"
      by (simp add: p_def r_def prev'_def Let_def)
    show ?thesis
    proof (cases "x = l")
      case True
      then have "prev' l = p" by (simp add: prev'_def)
      with ih True False show ?thesis
        unfolding step by (cases p) simp_all
    next
      case neq: False
      then have nb: "nesButtonForLogical x \<noteq> nesButtonForLogical l"
        using nesButtonForLogical_inj by blast
      from neq have "prev' l = prev l" by (simp add: prev'_def)
      with ih nb show ?thesis
        unfolding step by simp
    qed
  qed
qed

lemma reconcile_custom_edges:
  "calls_for (nesButtonForLogical l) (snd (reconcile_custom m gp ls prev))
     = (if l \<in> set ls then edge_call (prev l) (isPressedLogical m gp l) (nesButtonForLogical l)
        else [])
   \<and> fst (reconcile_custom m gp ls prev) l
       = (if l \<in> set ls then isPressedLogical m gp l else prev l)"
proof (induction ls arbitrary: prev)
  case Nil
  then show ?case by (simp add: calls_for_def)
next
  case (Cons x ls)
  define p where "p = isPressedLogical m gp x"
  define prev' where "prev' = prev(x := p)"
  define r where "r = reconcile_custom m gp ls prev'"
  have ih: "calls_for (nesButtonForLogical l) (snd r)
      = (if l \<in> set ls then edge_call (prev' l) (isPressedLogical m gp l) (nesButtonForLogical l)
         else [])
      \<and> fst r l = (if l \<in> set ls then isPressedLogical m gp l else prev' l)"
    unfolding r_def by (rule Cons.IH)
  show ?case
  proof (cases "p = prev x")
    case True
    then have same: "reconcile_custom m gp (x # ls) prev = reconcile_custom m gp ls prev"
      by (simp add: p_def)
    show ?thesis
    proof (cases "x = l")
      case True
      with \<open>p = prev x\<close> Cons.IH [of prev] show ?thesis
        unfolding same by (auto simp: p_def edge_call_def)
    next
      case False
      with Cons.IH [of prev] show ?thesis
        unfolding same by auto
    qed
  next
    case False
    then have step: "reconcile_custom m gp (x # ls) prev
        = (fst r, (if p then ButtonDown 1 (nesButtonForLogical x)
                   else ButtonUp 1 (nesButtonForLogical x)) # snd r)"
      by (simp add: p_def r_def prev'_def Let_def)
    show ?thesis
    proof (cases "x = l")
      case True
      then have pl: "prev' l = p" and il: "isPressedLogical m gp l = p"
        by (simp_all add: prev'_def p_def)
      from ih have "calls_for (nesButtonForLogical l) (snd r) = []"
        by (simp add: pl il edge_call_def)
      moreover from ih have "fst r l = p"
        by (simp add: pl il)
      ultimately show ?thesis
        using True False unfolding step
        by (cases p) (auto simp: calls_for_def edge_call_def p_def)
    next
      case neq: False
      then have nb: "nesButtonForLogical x \<noteq> nesButtonForLogical l"
        using nesButtonForLogical_inj by blast
      from neq have "prev' l = prev l" by (simp add: prev'_def)
      with ih nb neq show ?thesis
        unfolding step by (auto simp: calls_for_def)
    qed
  qed
qed

lemma hasCustomMapping_upd: "hasCustomMapping (m(b \<mapsto> e))"
  by (cases b) (simp_all add: hasCustomMapping_def)

lemma advanceBinding_keeps:
  "mapping (advanceBinding env c s) = mapping s"
  "prevLogical (advanceBinding env c s) = prevLogical s"
  by (simp_all add: advanceBinding_def Let_def)

lemma advanceBinding_widget_keeps:
  "mapping (advanceBinding_widget env c s) = mapping s"
  "prevLogical (advanceBinding_widget env c s) = prevLogical s"
  by (simp_all add: advanceBinding_widget_def Let_def)

lemma capture_screen_prevLogical:
  "prevLogical (capture_screen env gp b s) = prevLogical s"
  by (simp add: capture_screen_def Let_def persistMappingForGamepad_def advanceBinding_keeps
      split: option.splits)

lemma capture_screen_custom:
  "hasCustomMapping (mapping s) \<Longrightarrow> hasCustomMapping (mapping (capture_screen env gp b s))"
  by (simp add: capture_screen_def Let_def persistMappingForGamepad_def advanceBinding_keeps
      hasCustomMapping_upd split: option.splits)

lemma capture_widget_prevLogical:
  "capture_widget env gp b s = Some s' \<Longrightarrow> prevLogical s' = prevLogical s"
  by (auto simp: capture_widget_def Let_def persistMappingForGamepad_def advanceBinding_widget_keeps
      split: option.splits if_splits)

lemma capture_widget_custom:
  "capture_widget env gp b s = Some s' \<Longrightarrow> hasCustomMapping (mapping s)
     \<Longrightarrow> hasCustomMapping (mapping s')"
  by (auto simp: capture_widget_def Let_def persistMappingForGamepad_def advanceBinding_widget_keeps
      hasCustomMapping_upd split: option.splits if_splits)

lemma tick_ok_same: "hasCustomMapping (mapping s) \<Longrightarrow> tick_ok l s (s, [])"
  by (simp add: tick_ok_def)

lemma reconcile_tick_ok:
  "hasCustomMapping (mapping s) \<Longrightarrow> tick_ok l s (reconcile gp s)"
  using reconcile_custom_alternates [of l "prevLogical s" "mapping s" gp logicals]
  by (simp add: tick_ok_def reconcile_def Let_def)

lemma poll_tick_ok:
  assumes "hasCustomMapping (mapping s)"
  shows "tick_ok l s (poll env pads s)"
proof (cases "gamepadIndex s")
  case None
  then show ?thesis using assms by (simp add: poll_def tick_ok_same)
next
  case (Some index)
  show ?thesis
  proof (cases "hasGetGamepads env")
    case False
    with Some show ?thesis using assms by (simp add: poll_def tick_ok_same)
  next
    case True
    show ?thesis
    proof (cases "pad_at pads index")
      case None
      with Some True show ?thesis using assms by (simp add: poll_def tick_ok_same)
    next
      case gp: (Some gp)
      show ?thesis
      proof (cases "activeBinding s")
        case None
        with Some True gp show ?thesis
          using assms by (simp add: poll_def tick_ok_same reconcile_tick_ok)
      next
        case b: (Some b)
        have "tick_ok l s (capture_screen env gp b s, [])"
          using assms by (simp add: tick_ok_def capture_screen_prevLogical capture_screen_custom)
        with Some True gp b show ?thesis by (simp add: poll_def)
      qed
    qed
  qed
qed

lemma poll_widget_tick_ok:
  assumes "hasCustomMapping (mapping s)"
  shows "tick_ok l s (poll_widget env pads s)"
proof (cases "gamepadIndex s")
  case None
  then show ?thesis using assms by (simp add: poll_widget_def tick_ok_same)
next
  case (Some index)
  show ?thesis
  proof (cases "hasGetGamepads env")
    case False
    with Some show ?thesis using assms by (simp add: poll_widget_def tick_ok_same)
  next
    case True
    show ?thesis
    proof (cases "pad_at pads index")
      case None
      with Some True show ?thesis using assms by (simp add: poll_widget_def tick_ok_same)
    next
      case gp: (Some gp)
      show ?thesis
      proof (cases "case activeBinding s of None \<Rightarrow> None
                                 | Some binding \<Rightarrow> capture_widget env gp binding s")
        case None
        with Some True gp show ?thesis
          using assms by (simp add: poll_widget_def tick_ok_same reconcile_tick_ok)
      next
        case s': (Some s')
        then obtain b where "capture_widget env gp b s = Some s'"
          by (auto split: option.splits)
        then have "tick_ok l s (s', [])"
          using assms
          by (simp add: tick_ok_def capture_widget_prevLogical capture_widget_custom)
        with Some True gp s' show ?thesis by (simp add: poll_widget_def)
      qed
    qed
  qed
qed

lemma run_ticks_ok:
  assumes step: "\<And>t s. hasCustomMapping (mapping s) \<Longrightarrow> tick_ok l s (step t s)"
  shows "hasCustomMapping (mapping s) \<Longrightarrow> tick_ok l s (run_ticks step ts s)"
proof (induction ts arbitrary: s)
  case Nil
  then show ?case by (simp add: tick_ok_same)
next
  case (Cons t ts)
  have one: "tick_ok l s (step t s)"
    using Cons.prems by (rule step)
  then have "hasCustomMapping (mapping (fst (step t s)))"
    by (simp add: tick_ok_def)
  then have rest: "tick_ok l (fst (step t s)) (run_ticks step ts (fst (step t s)))"
    by (rule Cons.IH)
  from one rest show ?case
    by (simp add: tick_ok_def Let_def alternates_append held_after_append)
qed

subsection \<open>Guided mapping in the emulator screen\<close>

lemma reconcile_guided_fields:
  "pendingAdvance (fst (reconcile gp s)) = pendingAdvance s"
  "bindingStep (fst (reconcile gp s)) = bindingStep s"
  "mappingDone (fst (reconcile gp s)) = mappingDone s"
  "activeBinding (fst (reconcile gp s)) = activeBinding s"
  by (simp_all add: reconcile_def reconcile_default_def Let_def)

lemma capture_screen_frozen:
  "pendingAdvance s = None \<Longrightarrow> step_frozen s (capture_screen env gp b s)"
  by (simp add: step_frozen_def capture_screen_def Let_def persistMappingForGamepad_def
      split: option.splits)

lemma poll_frozen:
  assumes "pendingAdvance s = None"
  shows "step_frozen s (fst (poll env pads s))"
proof -
  have same: "step_frozen s s"
    using assms by (simp add: step_frozen_def)
  have rec: "step_frozen s (fst (reconcile gp s))" for gp
    using assms by (simp add: step_frozen_def reconcile_guided_fields)
  show ?thesis
    using same rec capture_screen_frozen [OF assms]
    by (simp add: poll_def split: option.splits)
qed

lemma run_poll_frozen:
  "pendingAdvance s = None \<Longrightarrow> step_frozen s (fst (run_ticks poll_tick ticks s))"
proof (induction ticks arbitrary: s)
  case Nil
  then show ?case by (simp add: step_frozen_def)
next
  case (Cons t ticks)
  have one: "step_frozen s (fst (poll_tick t s))"
    using Cons.prems by (simp add: poll_tick_def poll_frozen)
  then have "pendingAdvance (fst (poll_tick t s)) = None"
    by (simp add: step_frozen_def)
  then have "step_frozen (fst (poll_tick t s)) (fst (run_ticks poll_tick ticks (fst (poll_tick t s))))"
    by (rule Cons.IH)
  with one show ?case
    by (simp add: step_frozen_def Let_def)
qed

lemma startGuidedMapping_fields:
  "mapping (startGuidedMapping ident s) = Map.empty"
  "bindingStep (startGuidedMapping ident s) = 0"
  "mappingDone (startGuidedMapping ident s) = False"
  "activeBinding (startGuidedMapping ident s) = Some UP"
  "waitingForRelease (startGuidedMapping ident s) = False"
  "pendingAdvance (startGuidedMapping ident s) = None"
  by (simp_all add: startGuidedMapping_def Let_def persistMappingForGamepad_def BINDING_ORDER_def
      split: option.splits)

text \<open>
  C4. In the emulator screen, \<open>poll\<close> sets \<open>waitingForRelease\<close> when it accepts a binding but
  leaves \<open>pendingAdvance\<close> empty, and the release branch calls \<open>advanceBinding\<close> only for a
  non-empty \<open>pendingAdvance\<close>. So after \<open>startGuidedMapping\<close>, whatever the controller does
  on any number of ticks, the step stays 0, the mapper stays on Up and \<open>mappingDone\<close> is
  never set: the eight steps of the claim are not taken. (Restarting does give an empty table
  and step 0: \<open>startGuidedMapping_fields\<close>.)
\<close>

theorem screen_mapping_never_advances:
  "bindingStep (fst (run_ticks poll_tick ticks (startGuidedMapping ident s))) = 0
   \<and> mappingDone (fst (run_ticks poll_tick ticks (startGuidedMapping ident s))) = False
   \<and> activeBinding (fst (run_ticks poll_tick ticks (startGuidedMapping ident s))) = Some UP"
  using run_poll_frozen [of "startGuidedMapping ident s" ticks]
  by (simp add: step_frozen_def startGuidedMapping_fields)

text \<open>
  C5. A binding is accepted (button 3 pressed for Up) and then everything is released. The
  emulator screen leaves the release wait without advancing: step 0, still asking for Up.
  On the same two ticks the widget, which records the accepted button in \<open>pendingAdvance\<close>,
  advances once to step 1 and asks for Down.
\<close>

theorem screen_release_does_not_advance:
  "bindingStep (fst (run_ticks poll_tick
          [(mapper_env, [Some (digital_pad [False, False, False, True])]),
           (mapper_env, [Some (digital_pad [False, False, False, False])])]
          (startGuidedMapping (Some ''pad0'') connected_pad))) = 0
   \<and> activeBinding (fst (run_ticks poll_tick
          [(mapper_env, [Some (digital_pad [False, False, False, True])]),
           (mapper_env, [Some (digital_pad [False, False, False, False])])]
          (startGuidedMapping (Some ''pad0'') connected_pad))) = Some UP
   \<and> waitingForRelease (fst (run_ticks poll_tick
          [(mapper_env, [Some (digital_pad [False, False, False, True])]),
           (mapper_env, [Some (digital_pad [False, False, False, False])])]
          (startGuidedMapping (Some ''pad0'') connected_pad))) = False
   \<and> bindingStep (fst (run_ticks poll_widget_tick
          [(mapper_env, [Some (digital_pad [False, False, False, True])]),
           (mapper_env, [Some (digital_pad [False, False, False, False])])]
          (startGuidedMapping (Some ''pad0'') connected_pad))) = 1
   \<and> activeBinding (fst (run_ticks poll_widget_tick
          [(mapper_env, [Some (digital_pad [False, False, False, True])]),
           (mapper_env, [Some (digital_pad [False, False, False, False])])]
          (startGuidedMapping (Some ''pad0'') connected_pad))) = Some DOWN"
  by code_simp

subsection \<open>Guided mapping in the widget\<close>

lemma widget_waits_while_engaged:
  assumes "gamepadIndex s = Some index" and "hasGetGamepads env" and "pad_at pads index = Some gp"
    and "activeBinding s = Some b" and "waitingForRelease s"
    and "anyPressed (pad_buttons gp) \<or> axisEngaged (pad_axes gp)"
  shows "poll_widget env pads s = (s, [])"
  using assms by (simp add: poll_widget_def capture_widget_def)

lemma widget_advances_on_release:
  assumes "gamepadIndex s = Some index" and "hasGetGamepads env" and "pad_at pads index = Some gp"
    and "activeBinding s = Some b" and "waitingForRelease s" and "pendingAdvance s = Some c"
    and "showMapperModal env"
    and "\<not> anyPressed (pad_buttons gp)" and "\<not> axisEngaged (pad_axes gp)"
  shows "bindingStep (fst (poll_widget env pads s)) = min (length BINDING_ORDER) (bindingStep s + 1)
    \<and> waitingForRelease (fst (poll_widget env pads s)) = False
    \<and> pendingAdvance (fst (poll_widget env pads s)) = None
    \<and> mappingDone (fst (poll_widget env pads s))
         = (mappingDone s \<or> length BINDING_ORDER \<le> bindingStep s + 1)"
  using assms
  by (auto simp: poll_widget_def capture_widget_def advanceBinding_widget_def Let_def)

lemma widget_accept_enters_release_wait:
  assumes "gamepadIndex s = Some index" and "hasGetGamepads env" and "pad_at pads index = Some gp"
    and "activeBinding s = Some b" and "\<not> waitingForRelease s" and "showMapperModal env"
    and "capture_entry gp b = Some e"
  shows "waitingForRelease (fst (poll_widget env pads s))
    \<and> pendingAdvance (fst (poll_widget env pads s)) = Some b
    \<and> bindingStep (fst (poll_widget env pads s)) = bindingStep s
    \<and> mapping (fst (poll_widget env pads s)) = (mapping s)(b \<mapsto> e)"
  using assms
  by (simp add: poll_widget_def capture_widget_def Let_def persistMappingForGamepad_def)


text \<open>
  Eight rounds of pressing a button and releasing it, one button after the other: the widget
  binds the eight logical buttons in order and is done; the emulator screen is still at
  step 0.
\<close>

lemma widget_eight_rounds_done:
  "bindingStep (fst (run_ticks poll_widget_tick (eight_rounds mapper_env)
      (startGuidedMapping (Some ''pad0'') connected_pad))) = 8
   \<and> mappingDone (fst (run_ticks poll_widget_tick (eight_rounds mapper_env)
      (startGuidedMapping (Some ''pad0'') connected_pad)))
   \<and> activeBinding (fst (run_ticks poll_widget_tick (eight_rounds mapper_env)
      (startGuidedMapping (Some ''pad0'') connected_pad))) = None
   \<and> map (mapping (fst (run_ticks poll_widget_tick (eight_rounds mapper_env)
      (startGuidedMapping (Some ''pad0'') connected_pad)))) BINDING_ORDER
      = map (\<lambda>i. Some (ButtonEntry i)) [0, 1, 2, 3, 4, 5, 6, 7]"
  by code_simp

lemma screen_eight_rounds_stuck:
  "bindingStep (fst (run_ticks poll_tick (eight_rounds mapper_env)
      (startGuidedMapping (Some ''pad0'') connected_pad))) = 0
   \<and> \<not> mappingDone (fst (run_ticks poll_tick (eight_rounds mapper_env)
      (startGuidedMapping (Some ''pad0'') connected_pad)))
   \<and> map (mapping (fst (run_ticks poll_tick (eight_rounds mapper_env)
      (startGuidedMapping (Some ''pad0'') connected_pad)))) BINDING_ORDER
      = [Some (ButtonEntry 7), None, None, None, None, None, None, None]"
  by code_simp

subsection \<open>Edge events\<close>

lemma all_logicals: "l \<in> set logicals"
  by (cases l) (simp_all add: logicals_def)

text \<open>
  C1, amended. With a custom mapping (at least one entry) and a logical button that starts
  released, at every point of the calls made over any sequence of poll ticks, in the emulator
  screen and in the widget, the downs minus the ups of that button is 0 or 1. On one
  reconciling tick the calls for the button are exactly one down when its resolved state goes
  from released to pressed, exactly one up when it goes from pressed to released, and none
  when it is unchanged; the resolved state becomes the remembered one.
\<close>

theorem custom_mapping_edge_events:
  assumes "hasCustomMapping (mapping s)" and "\<not> prevLogical s l"
  shows "(prefix cs (snd (run_ticks poll_tick ticks s)) \<longrightarrow>
            int (downs (nesButtonForLogical l) cs) - int (ups (nesButtonForLogical l) cs) \<in> {0, 1})
    \<and> (prefix cs (snd (run_ticks poll_widget_tick ticks s)) \<longrightarrow>
            int (downs (nesButtonForLogical l) cs) - int (ups (nesButtonForLogical l) cs) \<in> {0, 1})
    \<and> (hasCustomMapping (mapping s') \<longrightarrow>
          calls_for (nesButtonForLogical l) (snd (reconcile gp s'))
            = edge_call (prevLogical s' l) (isPressedLogical (mapping s') gp l) (nesButtonForLogical l)
          \<and> prevLogical (fst (reconcile gp s')) l = isPressedLogical (mapping s') gp l)"
proof (intro conjI impI)
  assume p: "prefix cs (snd (run_ticks poll_tick ticks s))"
  have "tick_ok l s (run_ticks poll_tick ticks s)"
    by (rule run_ticks_ok [where step = poll_tick, OF _ assms(1)])
      (simp add: poll_tick_def poll_tick_ok)
  then have "alternates (nesButtonForLogical l) False (snd (run_ticks poll_tick ticks s))"
    using assms(2) by (simp add: tick_ok_def)
  then show "int (downs (nesButtonForLogical l) cs) - int (ups (nesButtonForLogical l) cs) \<in> {0, 1}"
    using p by (rule alternates_bound)
next
  assume p: "prefix cs (snd (run_ticks poll_widget_tick ticks s))"
  have "tick_ok l s (run_ticks poll_widget_tick ticks s)"
    by (rule run_ticks_ok [where step = poll_widget_tick, OF _ assms(1)])
      (simp add: poll_widget_tick_def poll_widget_tick_ok)
  then have "alternates (nesButtonForLogical l) False (snd (run_ticks poll_widget_tick ticks s))"
    using assms(2) by (simp add: tick_ok_def)
  then show "int (downs (nesButtonForLogical l) cs) - int (ups (nesButtonForLogical l) cs) \<in> {0, 1}"
    using p by (rule alternates_bound)
next
  assume c: "hasCustomMapping (mapping s')"
  then show "calls_for (nesButtonForLogical l) (snd (reconcile gp s'))
      = edge_call (prevLogical s' l) (isPressedLogical (mapping s') gp l) (nesButtonForLogical l)"
    using reconcile_custom_edges [of l "mapping s'" gp logicals "prevLogical s'"] all_logicals [of l]
    by (simp add: reconcile_def Let_def)
next
  assume c: "hasCustomMapping (mapping s')"
  then show "prevLogical (fst (reconcile gp s')) l = isPressedLogical (mapping s') gp l"
    using reconcile_custom_edges [of l "mapping s'" gp logicals "prevLogical s'"] all_logicals [of l]
    by (simp add: reconcile_def Let_def)
qed

lemma custom_pad_run:
  "snd (run_ticks poll_tick
     [(playing_env, [Some (digital_pad [True])]), (playing_env, [Some (digital_pad [True])]),
      (playing_env, [Some (digital_pad [False])]), (playing_env, [Some (digital_pad [True])])]
     custom_pad)
   = [ButtonDown 1 BUTTON_A, ButtonUp 1 BUTTON_A, ButtonDown 1 BUTTON_A]"
  by code_simp

lemma custom_pad_run_widget:
  "snd (run_ticks poll_widget_tick
     [(playing_env, [Some (digital_pad [True])]), (playing_env, [Some (digital_pad [True])]),
      (playing_env, [Some (digital_pad [False])]), (playing_env, [Some (digital_pad [True])])]
     custom_pad)
   = [ButtonDown 1 BUTTON_A, ButtonUp 1 BUTTON_A, ButtonDown 1 BUTTON_A]"
  by code_simp

lemma custom_pad_hyps:
  "hasCustomMapping (mapping custom_pad)" "\<not> prevLogical custom_pad A"
  by (simp_all add: custom_pad_def connected_pad_def handleConnect_def initialPadState_def
      hasCustomMapping_def)

text \<open>The amended C1 at a pad whose button 0 is bound to A: press, hold, release, press.\<close>

theorem custom_mapping_edge_events_witness:
  "hasCustomMapping (mapping custom_pad) \<and> \<not> prevLogical custom_pad A
   \<and> prefix [ButtonDown 1 BUTTON_A, ButtonUp 1 BUTTON_A]
       (snd (run_ticks poll_tick
         [(playing_env, [Some (digital_pad [True])]), (playing_env, [Some (digital_pad [True])]),
          (playing_env, [Some (digital_pad [False])]), (playing_env, [Some (digital_pad [True])])]
         custom_pad))
   \<and> prefix [ButtonDown 1 BUTTON_A, ButtonUp 1 BUTTON_A]
       (snd (run_ticks poll_widget_tick
         [(playing_env, [Some (digital_pad [True])]), (playing_env, [Some (digital_pad [True])]),
          (playing_env, [Some (digital_pad [False])]), (playing_env, [Some (digital_pad [True])])]
         custom_pad))
   \<and> int (downs (nesButtonForLogical A) [ButtonDown 1 BUTTON_A, ButtonUp 1 BUTTON_A])
       - int (ups (nesButtonForLogical A) [ButtonDown 1 BUTTON_A, ButtonUp 1 BUTTON_A]) \<in> {0, 1}
   \<and> calls_for (nesButtonForLogical A) (snd (reconcile (digital_pad [True]) custom_pad))
       = edge_call (prevLogical custom_pad A)
           (isPressedLogical (mapping custom_pad) (digital_pad [True]) A) (nesButtonForLogical A)"
proof -
  have p1: "prefix [ButtonDown 1 BUTTON_A, ButtonUp 1 BUTTON_A]
       (snd (run_ticks poll_tick
         [(playing_env, [Some (digital_pad [True])]), (playing_env, [Some (digital_pad [True])]),
          (playing_env, [Some (digital_pad [False])]), (playing_env, [Some (digital_pad [True])])]
         custom_pad))"
    by (subst custom_pad_run) simp
  have p2: "prefix [ButtonDown 1 BUTTON_A, ButtonUp 1 BUTTON_A]
       (snd (run_ticks poll_widget_tick
         [(playing_env, [Some (digital_pad [True])]), (playing_env, [Some (digital_pad [True])]),
          (playing_env, [Some (digital_pad [False])]), (playing_env, [Some (digital_pad [True])])]
         custom_pad))"
    by (subst custom_pad_run_widget) simp
  show ?thesis
    using custom_mapping_edge_events [OF custom_pad_hyps, of "[ButtonDown 1 BUTTON_A, ButtonUp 1 BUTTON_A]"
        "[(playing_env, [Some (digital_pad [True])]), (playing_env, [Some (digital_pad [True])]),
          (playing_env, [Some (digital_pad [False])]), (playing_env, [Some (digital_pad [True])])]"
        custom_pad "digital_pad [True]"]
      custom_pad_hyps p1 p2
    by blast
qed

text \<open>
  C1 as stated fails in the default layout, where edges are detected per physical button:
  buttons 0 and 2 both stand for A, and pressing 2 while 0 is held sends a second down for A.
\<close>

theorem default_layout_double_down_counterexample:
  "snd (run_ticks poll_tick
          [(playing_env, [Some (digital_pad [True, False, False])]),
           (playing_env, [Some (digital_pad [True, False, True])])] connected_pad)
     = [ButtonDown 1 (nesButtonForLogical A), ButtonDown 1 (nesButtonForLogical A)]
   \<and> int (downs (nesButtonForLogical A)
             [ButtonDown 1 (nesButtonForLogical A), ButtonDown 1 (nesButtonForLogical A)])
       - int (ups (nesButtonForLogical A)
             [ButtonDown 1 (nesButtonForLogical A), ButtonDown 1 (nesButtonForLogical A)]) = 2"
  by code_simp

subsection \<open>Disconnect\<close>

lemma poll_without_gamepad:
  "gamepadIndex s = None \<Longrightarrow> poll env pads s = (s, [])"
  "gamepadIndex s = None \<Longrightarrow> poll_widget env pads s = (s, [])"
  by (simp_all add: poll_def poll_widget_def)

lemma run_ticks_without_gamepad:
  assumes "gamepadIndex s = None"
  shows "run_ticks poll_tick ticks s = (s, [])"
    and "run_ticks poll_widget_tick ticks s = (s, [])"
proof -
  show "run_ticks poll_tick ticks s = (s, [])"
  proof (induction ticks)
    case Nil
    show ?case by simp
  next
    case (Cons t ticks)
    have "poll_tick t s = (s, [])"
      using assms by (simp add: poll_tick_def poll_without_gamepad)
    with Cons.IH show ?case by (simp add: Let_def)
  qed
  show "run_ticks poll_widget_tick ticks s = (s, [])"
  proof (induction ticks)
    case Nil
    show ?case by simp
  next
    case (Cons t ticks)
    have "poll_widget_tick t s = (s, [])"
      using assms by (simp add: poll_widget_tick_def poll_without_gamepad)
    with Cons.IH show ?case by (simp add: Let_def)
  qed
qed

text \<open>
  C3, amended. When the event is for the active gamepad, \<open>handleDisconnect\<close> clears the
  index, the connection flag, the label, the mapping and the active binding and changes
  nothing else; for another gamepad it changes nothing at all. It makes no call to the
  runtime and keeps the per-button, per-axis and per-logical previous-state as it is. Once
  the active gamepad is gone, any number of poll ticks, in the emulator screen and in the
  widget, make no call and change nothing: a button that was held gets no release.
\<close>

theorem disconnect_emits_nothing:
  "snd (handleDisconnect i s) = []
   \<and> prevButtons (fst (handleDisconnect i s)) = prevButtons s
   \<and> prevAxis (fst (handleDisconnect i s)) = prevAxis s
   \<and> prevLogical (fst (handleDisconnect i s)) = prevLogical s
   \<and> (gamepadIndex s = Some i \<longrightarrow>
        fst (handleDisconnect i s)
          = s\<lparr>gamepadIndex := None, gamepadConnected := False, gamepadLabel := None,
              mapping := Map.empty, activeBinding := None\<rparr>
        \<and> gamepadIndex (fst (handleDisconnect i s)) = None
        \<and> gamepadConnected (fst (handleDisconnect i s)) = False
        \<and> gamepadLabel (fst (handleDisconnect i s)) = None
        \<and> mapping (fst (handleDisconnect i s)) = Map.empty
        \<and> activeBinding (fst (handleDisconnect i s)) = None
        \<and> run_ticks poll_tick ticks (fst (handleDisconnect i s)) = (fst (handleDisconnect i s), [])
        \<and> run_ticks poll_widget_tick ticks (fst (handleDisconnect i s))
            = (fst (handleDisconnect i s), []))
   \<and> (gamepadIndex s \<noteq> Some i \<longrightarrow> fst (handleDisconnect i s) = s)"
proof (intro conjI impI)
  assume a: "gamepadIndex s = Some i"
  then show gone: "gamepadIndex (fst (handleDisconnect i s)) = None"
    by (simp add: handleDisconnect_def)
  show "run_ticks poll_tick ticks (fst (handleDisconnect i s)) = (fst (handleDisconnect i s), [])"
    using gone by (rule run_ticks_without_gamepad)
  show "run_ticks poll_widget_tick ticks (fst (handleDisconnect i s))
      = (fst (handleDisconnect i s), [])"
    using gone by (rule run_ticks_without_gamepad)
qed (simp_all add: handleDisconnect_def)

text \<open>
  The amended C3 at the pad with button 0 bound to A while A is held: gamepad 0 disconnects,
  and two further ticks with the button still pressed change nothing and call nothing; a
  disconnect of gamepad 1 is ignored.
\<close>

theorem disconnect_emits_nothing_witness:
  "gamepadIndex held_pad = Some 0
   \<and> prevLogical held_pad A
   \<and> snd (handleDisconnect 0 held_pad) = []
   \<and> prevLogical (fst (handleDisconnect 0 held_pad)) A
   \<and> gamepadIndex (fst (handleDisconnect 0 held_pad)) = None
   \<and> mapping (fst (handleDisconnect 0 held_pad)) = Map.empty
   \<and> run_ticks poll_tick
        [(playing_env, [Some (digital_pad [True])]), (playing_env, [Some (digital_pad [False])])]
        (fst (handleDisconnect 0 held_pad))
       = (fst (handleDisconnect 0 held_pad), [])
   \<and> gamepadIndex held_pad \<noteq> Some 1
   \<and> fst (handleDisconnect 1 held_pad) = held_pad"
proof -
  have i: "gamepadIndex held_pad = Some 0"
    unfolding held_pad_def by code_simp
  have h: "prevLogical held_pad A"
    unfolding held_pad_def by code_simp
  have n: "gamepadIndex held_pad \<noteq> Some 1"
    using i by simp
  show ?thesis
    using disconnect_emits_nothing [of 0 held_pad
        "[(playing_env, [Some (digital_pad [True])]), (playing_env, [Some (digital_pad [False])])]"]
      disconnect_emits_nothing [of 1 held_pad] i h n
    by metis
qed

text \<open>
  C3 as stated fails: A is held (one down was sent), the pad disconnects, no up is sent and
  A is still remembered as held.
\<close>

theorem disconnect_while_held_counterexample:
  "snd (poll playing_env [Some (digital_pad [True])] custom_pad) = [ButtonDown 1 (nesButtonForLogical A)]
   \<and> prevLogical (fst (poll playing_env [Some (digital_pad [True])] custom_pad)) A
   \<and> snd (handleDisconnect 0 (fst (poll playing_env [Some (digital_pad [True])] custom_pad))) = []
   \<and> prevLogical (fst (handleDisconnect 0
          (fst (poll playing_env [Some (digital_pad [True])] custom_pad)))) A"
  by code_simp


section \<open>Properties of the loader and of \<open>loadRom\<close>\<close>

lemma loadNintendoRom_resumed_resolves: "\<exists>inst. fst (loadNintendoRom_resumed inp) = Resolved inst"
  by (simp add: loadNintendoRom_resumed_def)

lemma handleResolve_stub_first:
  "srcs = src # rest \<Longrightarrow> (\<forall>h. src \<noteq> BootStarted (Some h)) \<Longrightarrow> \<exists>m. handleResolve srcs = StubEmulator m"
  by (cases src rule: instance_of_source.cases) (simp_all add: createStubEmulator_def)

lemma resumed_stub_or_first:
  "(\<exists>m. fst (loadNintendoRom_resumed inp) = Resolved (StubEmulator m))
   \<or> fst (loadNintendoRom_resumed inp) = Resolved (handleResolve (resolve_sources inp))"
  by (simp add: loadNintendoRom_resumed_def createStubEmulator_def)

lemma not_started_source:
  "(\<forall>h. e \<noteq> CbStarted (Some h)) \<Longrightarrow> source_of_event e \<noteq> BootStarted (Some h)"
  by (cases e) auto

lemma handleResolve_no_boot:
  assumes "\<forall>src \<in> set srcs. \<forall>h. src \<noteq> BootStarted (Some h)"
  shows "\<exists>m. handleResolve srcs = StubEmulator m"
proof (cases srcs)
  case Nil
  then show ?thesis by (simp add: createStubEmulator_def)
next
  case (Cons src rest)
  with assms have "\<forall>h. src \<noteq> BootStarted (Some h)" by simp
  with Cons show ?thesis by (rule handleResolve_stub_first)
qed

lemma stub_if_throws_before_boot:
  assumes "embedThrows inp" and "\<forall>e \<in> set (embedSync inp). \<forall>h. e \<noteq> CbStarted (Some h)"
  shows "\<exists>m. handleResolve (resolve_sources inp) = StubEmulator m"
proof (cases "embedSync inp")
  case Nil
  with assms(1) show ?thesis
    by (simp add: resolve_sources_def createStubEmulator_def)
next
  case (Cons e es)
  with assms(2) have "\<forall>h. e \<noteq> CbStarted (Some h)" by simp
  then have "\<forall>h. source_of_event e \<noteq> BootStarted (Some h)"
    using not_started_source by blast
  moreover have "resolve_sources inp = source_of_event e # tl (resolve_sources inp)"
    using Cons by (simp add: resolve_sources_def)
  ultimately show ?thesis
    using handleResolve_stub_first by blast
qed

lemma stub_if_error_first:
  assumes "embedSync inp = EmbedError # rest"
  shows "\<exists>m. handleResolve (resolve_sources inp) = StubEmulator m"
  using assms by (simp add: resolve_sources_def createStubEmulator_def)

lemma stub_if_error_first_later:
  assumes "embedSync inp = []" and "embedLater inp = (t, EmbedError) # rest"
  shows "\<exists>m. handleResolve (resolve_sources inp) = StubEmulator m"
  using assms by (simp add: resolve_sources_def createStubEmulator_def)

lemma vendor_if_boot_first:
  assumes "embedSync inp = CbStarted (Some h) # rest"
  shows "handleResolve (resolve_sources inp) = VendorInstance h"
  using assms by (simp add: resolve_sources_def)

lemma vendor_if_boot_first_later:
  assumes "embedSync inp = []" and "\<not> embedThrows inp"
    and "embedLater inp = (t, CbStarted (Some h)) # rest" and "t \<le> embedReturnsAfter inp + BOOT_TIMEOUT_MS"
  shows "handleResolve (resolve_sources inp) = VendorInstance h"
  using assms by (simp add: resolve_sources_def)

lemma set_resolve_sources:
  "set (resolve_sources inp)
     = source_of_event ` set (embedSync inp)
       \<union> (if embedThrows inp then {EmbedThrew} else {})
       \<union> (\<lambda>te. source_of_event (snd te))
           ` set (takeWhile (\<lambda>te. fst te \<le> embedReturnsAfter inp + BOOT_TIMEOUT_MS)
                        (embedLater inp))
       \<union> {BootTimeout}"
  by (simp add: resolve_sources_def image_image Un_assoc)

lemma stub_if_no_boot_in_time:
  assumes sync: "\<forall>e \<in> set (embedSync inp). \<forall>h. e \<noteq> CbStarted (Some h)"
    and later: "\<forall>te \<in> set (takeWhile (\<lambda>te. fst te \<le> embedReturnsAfter inp + BOOT_TIMEOUT_MS)
                        (embedLater inp)).
                  \<forall>h. snd te \<noteq> CbStarted (Some h)"
  shows "\<exists>m. handleResolve (resolve_sources inp) = StubEmulator m"
proof (rule handleResolve_no_boot, intro ballI allI)
  fix src h
  assume mem: "src \<in> set (resolve_sources inp)"
  show "src \<noteq> BootStarted (Some h)"
  proof
    assume eq: "src = BootStarted (Some h)"
    with mem have "BootStarted (Some h) \<in> source_of_event ` set (embedSync inp)
        \<or> BootStarted (Some h) \<in> (\<lambda>te. source_of_event (snd te))
             ` set (takeWhile (\<lambda>te. fst te \<le> embedReturnsAfter inp + BOOT_TIMEOUT_MS)
                        (embedLater inp))"
      unfolding set_resolve_sources by (simp split: if_splits)
    then show False
    proof
      assume "BootStarted (Some h) \<in> source_of_event ` set (embedSync inp)"
      then obtain e where e: "e \<in> set (embedSync inp)" and s: "BootStarted (Some h) = source_of_event e"
        by (rule imageE)
      from sync e have "\<forall>h. e \<noteq> CbStarted (Some h)" by (rule bspec)
      then have "source_of_event e \<noteq> BootStarted (Some h)" by (rule not_started_source)
      with s show False by simp
    next
      assume "BootStarted (Some h) \<in> (\<lambda>te. source_of_event (snd te))
             ` set (takeWhile (\<lambda>te. fst te \<le> embedReturnsAfter inp + BOOT_TIMEOUT_MS)
                        (embedLater inp))"
      then obtain te where te: "te \<in> set (takeWhile (\<lambda>te. fst te \<le> embedReturnsAfter inp + BOOT_TIMEOUT_MS)
                        (embedLater inp))"
        and s: "BootStarted (Some h) = source_of_event (snd te)"
        by (rule imageE)
      from later te have "\<forall>h. snd te \<noteq> CbStarted (Some h)" by (rule bspec)
      then have "source_of_event (snd te) \<noteq> BootStarted (Some h)" by (rule not_started_source)
      with s show False by simp
    qed
  qed
qed

lemma stub_if_precheck_fails:
  assumes "romBuffer inp = None \<or> romBuffer inp = Some [] \<or> \<not> hasValidNesHeader (romBuffer inp)
      \<or> \<not> containerPresent inp \<or> \<not> inBrowser inp \<or> \<not> embedNintendo inp"
  shows "\<exists>m. fst (loadNintendoRom_resumed inp) = Resolved (StubEmulator m)"
  using assms by (auto simp: loadNintendoRom_resumed_def createStubEmulator_def split: option.splits)

lemma take4:
  assumes "4 \<le> length (bs :: 'a list)"
  shows "take 4 bs = [bs ! 0, bs ! 1, bs ! 2, bs ! 3]"
proof -
  obtain a r1 where 1: "bs = a # r1" using assms by (cases bs) auto
  obtain b r2 where 2: "r1 = b # r2" using assms 1 by (cases r1) auto
  obtain c r3 where 3: "r2 = c # r3" using assms 1 2 by (cases r2) auto
  obtain d r4 where 4: "r3 = d # r4" using assms 1 2 3 by (cases r3) auto
  have "bs = a # b # c # d # r4" using 1 2 3 4 by simp
  then show ?thesis by (simp add: numeral_eq_Suc)
qed

lemma bad_magic_invalid:
  assumes b: "buffer = Some bs" and t: "take 4 bs \<noteq> [0x4e, 0x45, 0x53, 0x1a]"
  shows "\<not> hasValidNesHeader buffer"
proof
  assume v: "hasValidNesHeader buffer"
  from b v have len: "16 \<le> length bs"
    and hd: "bs ! 0 = 0x4e" "bs ! 1 = 0x45" "bs ! 2 = 0x53" "bs ! 3 = 0x1a"
    by (simp_all add: hasValidNesHeader_def split: if_splits)
  from len have "take 4 bs = [bs ! 0, bs ! 1, bs ! 2, bs ! 3]"
    by (intro take4) simp
  with hd t show False by simp
qed

lemma script_failure_no_embed:
  "\<not> embedDefined sc \<Longrightarrow> scriptWait sc = ScriptFailed \<Longrightarrow> ensureNintendoLoaded b sc = Some False"
  by (simp add: ensureNintendoLoaded_def)

lemma resolve_sources_embedNintendo:
  "resolve_sources (inp\<lparr>embedNintendo := e\<rparr>) = resolve_sources inp"
  by (simp add: resolve_sources_def)

lemma loadNintendoRom_returned:
  "ensureNintendoLoaded (inBrowser inp) sc = Some e \<Longrightarrow>
     loadNintendoRom sc inp
       = (Some (fst (loadNintendoRom_resumed (inp\<lparr>embedNintendo := e\<rparr>))),
          snd (loadNintendoRom_resumed (inp\<lparr>embedNintendo := e\<rparr>)))"
  by (simp add: loadNintendoRom_def Let_def)

lemma loadNintendoRom_pending:
  "ensureNintendoLoaded (inBrowser inp) sc = None \<Longrightarrow> loadNintendoRom sc inp = (None, False)"
  by (simp add: loadNintendoRom_def)

text \<open>
  C8, amended. \<open>loadNintendoRom\<close> never rejects. It stays pending when
  \<open>ensureNintendoLoaded\<close> never returns (the wait for the script never ends), and resolves
  in every other case. Then it resolves with a stub when the ROM buffer is empty, when its
  first four bytes are not \<open>N E S 0x1A\<close>, when the container is missing, when the script
  fails to load, when the embed call throws and no boot-started callback with a runtime has
  come during the call, when an embed-error event is the first event, and when no
  boot-started callback with a runtime comes before the timer, which fires 4000 ms after
  the embed call has returned. A stub has \<open>__isStub\<close> set and its \<open>buttonDown\<close> and
  \<open>buttonUp\<close> do nothing. A buffer without a valid header never reaches \<open>embedNintendo\<close>.
  When the checks pass and a boot-started callback with a runtime is the first event,
  during the call or no later than the timer, the promise resolves with that runtime,
  whatever is thrown or dispatched afterwards.
\<close>

theorem loadNintendoRom_failure_paths:
  "fst (loadNintendoRom sc inp) \<noteq> Some Rejected
   \<and> (ensureNintendoLoaded (inBrowser inp) sc = None \<longrightarrow> fst (loadNintendoRom sc inp) = None)
   \<and> (ensureNintendoLoaded (inBrowser inp) sc \<noteq> None \<longrightarrow>
        (\<exists>inst. fst (loadNintendoRom sc inp) = Some (Resolved inst)))
   \<and> (ensureNintendoLoaded (inBrowser inp) sc \<noteq> None
       \<and> (romBuffer inp = Some []
           \<or> (\<exists>bs. romBuffer inp = Some bs \<and> take 4 bs \<noteq> [0x4e, 0x45, 0x53, 0x1a])
           \<or> \<not> containerPresent inp
           \<or> (\<not> embedDefined sc \<and> scriptWait sc = ScriptFailed)
           \<or> (embedThrows inp \<and> (\<forall>e \<in> set (embedSync inp). \<forall>h. e \<noteq> CbStarted (Some h)))
           \<or> (\<exists>rest. embedSync inp = EmbedError # rest)
           \<or> (embedSync inp = [] \<and> (\<exists>t rest. embedLater inp = (t, EmbedError) # rest))
           \<or> ((\<forall>e \<in> set (embedSync inp). \<forall>h. e \<noteq> CbStarted (Some h))
               \<and> (\<forall>te \<in> set (takeWhile (\<lambda>te. fst te \<le> embedReturnsAfter inp + BOOT_TIMEOUT_MS)
                        (embedLater inp)).
                     \<forall>h. snd te \<noteq> CbStarted (Some h))))
       \<longrightarrow> (\<exists>m. fst (loadNintendoRom sc inp) = Some (Resolved (StubEmulator m))))
   \<and> isStub (StubEmulator m)
   \<and> instance_buttonDown (StubEmulator m) player button received = received
   \<and> instance_buttonUp (StubEmulator m) player button received = received
   \<and> (\<not> hasValidNesHeader (romBuffer inp) \<longrightarrow> snd (loadNintendoRom sc inp) = False)
   \<and> (ensureNintendoLoaded (inBrowser inp) sc = Some True \<and> containerPresent inp
       \<and> hasValidNesHeader (romBuffer inp)
       \<and> (embedSync inp = CbStarted (Some h) # rest
           \<or> (embedSync inp = [] \<and> \<not> embedThrows inp
               \<and> embedLater inp = (t, CbStarted (Some h)) # later_rest \<and> t \<le> embedReturnsAfter inp + BOOT_TIMEOUT_MS))
       \<longrightarrow> loadNintendoRom sc inp = (Some (Resolved (VendorInstance h)), True))"
proof (intro conjI impI)
  show "fst (loadNintendoRom sc inp) \<noteq> Some Rejected"
  proof (cases "ensureNintendoLoaded (inBrowser inp) sc")
    case None
    then show ?thesis by (simp add: loadNintendoRom_pending)
  next
    case (Some e)
    then show ?thesis
      using loadNintendoRom_resumed_resolves [of "inp\<lparr>embedNintendo := e\<rparr>"]
      by (auto simp: loadNintendoRom_returned)
  qed
next
  assume "ensureNintendoLoaded (inBrowser inp) sc = None"
  then show "fst (loadNintendoRom sc inp) = None"
    by (simp add: loadNintendoRom_pending)
next
  assume "ensureNintendoLoaded (inBrowser inp) sc \<noteq> None"
  then obtain e where "ensureNintendoLoaded (inBrowser inp) sc = Some e" by blast
  then show "\<exists>inst. fst (loadNintendoRom sc inp) = Some (Resolved inst)"
    using loadNintendoRom_resumed_resolves [of "inp\<lparr>embedNintendo := e\<rparr>"]
    by (auto simp: loadNintendoRom_returned)
next
  assume a: "ensureNintendoLoaded (inBrowser inp) sc \<noteq> None
       \<and> (romBuffer inp = Some []
           \<or> (\<exists>bs. romBuffer inp = Some bs \<and> take 4 bs \<noteq> [0x4e, 0x45, 0x53, 0x1a])
           \<or> \<not> containerPresent inp
           \<or> (\<not> embedDefined sc \<and> scriptWait sc = ScriptFailed)
           \<or> (embedThrows inp \<and> (\<forall>e \<in> set (embedSync inp). \<forall>h. e \<noteq> CbStarted (Some h)))
           \<or> (\<exists>rest. embedSync inp = EmbedError # rest)
           \<or> (embedSync inp = [] \<and> (\<exists>t rest. embedLater inp = (t, EmbedError) # rest))
           \<or> ((\<forall>e \<in> set (embedSync inp). \<forall>h. e \<noteq> CbStarted (Some h))
               \<and> (\<forall>te \<in> set (takeWhile (\<lambda>te. fst te \<le> embedReturnsAfter inp + BOOT_TIMEOUT_MS)
                        (embedLater inp)).
                     \<forall>h. snd te \<noteq> CbStarted (Some h))))"
  then obtain e where e: "ensureNintendoLoaded (inBrowser inp) sc = Some e" by blast
  define inp' where "inp' = inp\<lparr>embedNintendo := e\<rparr>"
  have res: "fst (loadNintendoRom sc inp) = Some (fst (loadNintendoRom_resumed inp'))"
    using e by (simp add: loadNintendoRom_returned inp'_def)
  have same: "romBuffer inp' = romBuffer inp" "containerPresent inp' = containerPresent inp"
    "inBrowser inp' = inBrowser inp" "embedNintendo inp' = e"
    "resolve_sources inp' = resolve_sources inp"
    by (simp_all add: inp'_def resolve_sources_embedNintendo)
  have pre: "\<exists>m. fst (loadNintendoRom_resumed inp') = Resolved (StubEmulator m)"
    if "romBuffer inp = None \<or> romBuffer inp = Some [] \<or> \<not> hasValidNesHeader (romBuffer inp)
      \<or> \<not> containerPresent inp \<or> \<not> inBrowser inp \<or> \<not> e"
    using that by (intro stub_if_precheck_fails) (simp add: same)
  have boot: "\<exists>m. fst (loadNintendoRom_resumed inp') = Resolved (StubEmulator m)"
    if "\<exists>m. handleResolve (resolve_sources inp) = StubEmulator m"
    using that resumed_stub_or_first [of inp'] by (auto simp: same)
  from a have f: "romBuffer inp = Some []
           \<or> (\<exists>bs. romBuffer inp = Some bs \<and> take 4 bs \<noteq> [0x4e, 0x45, 0x53, 0x1a])
           \<or> \<not> containerPresent inp
           \<or> (\<not> embedDefined sc \<and> scriptWait sc = ScriptFailed)
           \<or> (embedThrows inp \<and> (\<forall>e \<in> set (embedSync inp). \<forall>h. e \<noteq> CbStarted (Some h)))
           \<or> (\<exists>rest. embedSync inp = EmbedError # rest)
           \<or> (embedSync inp = [] \<and> (\<exists>t rest. embedLater inp = (t, EmbedError) # rest))
           \<or> ((\<forall>e \<in> set (embedSync inp). \<forall>h. e \<noteq> CbStarted (Some h))
               \<and> (\<forall>te \<in> set (takeWhile (\<lambda>te. fst te \<le> embedReturnsAfter inp + BOOT_TIMEOUT_MS)
                        (embedLater inp)).
                     \<forall>h. snd te \<noteq> CbStarted (Some h)))"
    by (rule conjunct2)
  from f have "\<exists>m. fst (loadNintendoRom_resumed inp') = Resolved (StubEmulator m)"
  proof (elim disjE exE conjE)
    assume "romBuffer inp = Some []"
    then show ?thesis by (intro pre) simp
  next
    fix bs
    assume "romBuffer inp = Some bs" and "take 4 bs \<noteq> [0x4e, 0x45, 0x53, 0x1a]"
    then have "\<not> hasValidNesHeader (romBuffer inp)" by (rule bad_magic_invalid)
    then show ?thesis by (intro pre) simp
  next
    assume "\<not> containerPresent inp"
    then show ?thesis by (intro pre) simp
  next
    assume "\<not> embedDefined sc" and "scriptWait sc = ScriptFailed"
    then have "ensureNintendoLoaded (inBrowser inp) sc = Some False"
      by (rule script_failure_no_embed)
    with e have "\<not> e" by simp
    then show ?thesis by (intro pre) simp
  next
    assume "embedThrows inp" and "\<forall>e \<in> set (embedSync inp). \<forall>h. e \<noteq> CbStarted (Some h)"
    then show ?thesis by (intro boot stub_if_throws_before_boot)
  next
    fix rest
    assume "embedSync inp = EmbedError # rest"
    then show ?thesis by (intro boot stub_if_error_first)
  next
    fix t rest
    assume "embedSync inp = []" and "embedLater inp = (t, EmbedError) # rest"
    then show ?thesis by (intro boot stub_if_error_first_later)
  next
    assume "\<forall>e \<in> set (embedSync inp). \<forall>h. e \<noteq> CbStarted (Some h)"
      and "\<forall>te \<in> set (takeWhile (\<lambda>te. fst te \<le> embedReturnsAfter inp + BOOT_TIMEOUT_MS)
                        (embedLater inp)).
                 \<forall>h. snd te \<noteq> CbStarted (Some h)"
    then show ?thesis by (intro boot stub_if_no_boot_in_time)
  qed
  with res show "\<exists>m. fst (loadNintendoRom sc inp) = Some (Resolved (StubEmulator m))"
    by auto
next
  show "isStub (StubEmulator m)" by simp
next
  show "instance_buttonDown (StubEmulator m) player button received = received" by simp
next
  show "instance_buttonUp (StubEmulator m) player button received = received" by simp
next
  assume "\<not> hasValidNesHeader (romBuffer inp)"
  then show "snd (loadNintendoRom sc inp) = False"
    by (cases "ensureNintendoLoaded (inBrowser inp) sc")
       (simp_all add: loadNintendoRom_pending loadNintendoRom_returned loadNintendoRom_resumed_def)
next
  assume a: "ensureNintendoLoaded (inBrowser inp) sc = Some True \<and> containerPresent inp
       \<and> hasValidNesHeader (romBuffer inp)
       \<and> (embedSync inp = CbStarted (Some h) # rest
           \<or> (embedSync inp = [] \<and> \<not> embedThrows inp
               \<and> embedLater inp = (t, CbStarted (Some h)) # later_rest \<and> t \<le> embedReturnsAfter inp + BOOT_TIMEOUT_MS))"
  then have e: "ensureNintendoLoaded (inBrowser inp) sc = Some True"
    and c: "containerPresent inp" and v: "hasValidNesHeader (romBuffer inp)"
    by simp_all
  from e have br: "inBrowser inp"
    by (auto simp: ensureNintendoLoaded_def split: if_splits)
  from v have ne: "\<not> (case romBuffer inp of None \<Rightarrow> True | Some bs \<Rightarrow> length bs = 0)"
    by (auto simp: hasValidNesHeader_def split: option.splits if_splits)
  from a have "handleResolve (resolve_sources inp) = VendorInstance h"
    using vendor_if_boot_first [of inp h rest] vendor_if_boot_first_later [of inp t h later_rest]
    by blast
  with e c v br ne show "loadNintendoRom sc inp = (Some (Resolved (VendorInstance h)), True)"
    by (simp add: loadNintendoRom_returned loadNintendoRom_resumed_def resolve_sources_embedNintendo)
qed

text \<open>
  The amended C8 at a sixteen-byte buffer of zeros (no header: stub, embed never called); at
  a good ROM whose boot-started callback comes only after 5000 ms (stub by the timer); at a
  good ROM whose boot-started callback comes during the embed call, which then throws (the
  runtime); at an embed call that takes 30 ms, the boot-started callback coming 4010 ms
  after its start (the runtime); and at a script wait that never ends (pending).
\<close>

theorem loadNintendoRom_failure_paths_witness:
  "ensureNintendoLoaded (inBrowser bad_rom_input) ready_script = Some True
   \<and> (\<exists>bs. romBuffer bad_rom_input = Some bs \<and> take 4 bs \<noteq> [0x4e, 0x45, 0x53, 0x1a])
   \<and> (\<exists>m. fst (loadNintendoRom ready_script bad_rom_input) = Some (Resolved (StubEmulator m)))
   \<and> snd (loadNintendoRom ready_script bad_rom_input) = False
   \<and> embedSync silent_embed_input = []
   \<and> takeWhile (\<lambda>te. fst te \<le> embedReturnsAfter silent_embed_input + BOOT_TIMEOUT_MS)
        (embedLater silent_embed_input) = []
   \<and> (\<exists>m. fst (loadNintendoRom ready_script silent_embed_input) = Some (Resolved (StubEmulator m)))
   \<and> hasValidNesHeader (romBuffer boot_then_throw_input)
   \<and> embedSync boot_then_throw_input = [CbStarted (Some 7)]
   \<and> loadNintendoRom ready_script boot_then_throw_input = (Some (Resolved (VendorInstance 7)), True)
   \<and> embedLater slow_call_input = [(4010, CbStarted (Some 7))]
   \<and> loadNintendoRom ready_script slow_call_input = (Some (Resolved (VendorInstance 7)), True)
   \<and> ensureNintendoLoaded (inBrowser empty_rom_input) stalled_script = None
   \<and> fst (loadNintendoRom stalled_script empty_rom_input) = None"
proof -
  have r: "ensureNintendoLoaded True ready_script = Some True"
    by (simp add: ensureNintendoLoaded_def ready_script_def)
  have b: "inBrowser bad_rom_input" "inBrowser silent_embed_input" "inBrowser boot_then_throw_input"
    "inBrowser empty_rom_input"
    by (simp_all add: bad_rom_input_def silent_embed_input_def boot_then_throw_input_def
        empty_rom_input_def)
  have h1: "\<exists>bs. romBuffer bad_rom_input = Some bs \<and> take 4 bs \<noteq> [0x4e, 0x45, 0x53, 0x1a]"
    using take4 [of "replicate 16 (0::8 word)"] by (simp add: bad_rom_input_def)
  then have h2: "\<not> hasValidNesHeader (romBuffer bad_rom_input)"
    using bad_magic_invalid by blast
  have h3: "\<forall>e \<in> set (embedSync silent_embed_input). \<forall>h. e \<noteq> CbStarted (Some h)"
    by (simp add: silent_embed_input_def)
  have h4: "\<forall>te \<in> set (takeWhile (\<lambda>te. fst te \<le> embedReturnsAfter silent_embed_input + BOOT_TIMEOUT_MS)
        (embedLater silent_embed_input)).
         \<forall>h. snd te \<noteq> CbStarted (Some h)"
    by (simp add: silent_embed_input_def BOOT_TIMEOUT_MS_def)
  have h5: "embedSync silent_embed_input = []"
    by (simp add: silent_embed_input_def)
  have h6: "takeWhile (\<lambda>te. fst te \<le> embedReturnsAfter silent_embed_input + BOOT_TIMEOUT_MS)
        (embedLater silent_embed_input) = []"
    by (simp add: silent_embed_input_def BOOT_TIMEOUT_MS_def)
  have g: "hasValidNesHeader (romBuffer boot_then_throw_input)"
    "containerPresent boot_then_throw_input"
    "embedSync boot_then_throw_input = [CbStarted (Some 7)]"
    by (simp_all add: boot_then_throw_input_def silent_embed_input_def good_rom_def
        hasValidNesHeader_def)
  have p: "ensureNintendoLoaded True stalled_script = None"
    by (simp add: ensureNintendoLoaded_def stalled_script_def)
  have e1: "ensureNintendoLoaded (inBrowser bad_rom_input) ready_script = Some True"
    and e2: "ensureNintendoLoaded (inBrowser silent_embed_input) ready_script = Some True"
    and e3: "ensureNintendoLoaded (inBrowser boot_then_throw_input) ready_script = Some True"
    and e4: "ensureNintendoLoaded (inBrowser empty_rom_input) stalled_script = None"
    using r b p by simp_all
  from e1 e2 have n1: "ensureNintendoLoaded (inBrowser bad_rom_input) ready_script \<noteq> None"
    and n2: "ensureNintendoLoaded (inBrowser silent_embed_input) ready_script \<noteq> None"
    by simp_all
  have s1: "\<exists>m. fst (loadNintendoRom ready_script bad_rom_input) = Some (Resolved (StubEmulator m))"
    using loadNintendoRom_failure_paths [where sc = ready_script and inp = bad_rom_input] n1 h1
    by blast
  have s2: "snd (loadNintendoRom ready_script bad_rom_input) = False"
    using loadNintendoRom_failure_paths [where sc = ready_script and inp = bad_rom_input] h2
    by blast
  have s3: "\<exists>m. fst (loadNintendoRom ready_script silent_embed_input) = Some (Resolved (StubEmulator m))"
    using loadNintendoRom_failure_paths [where sc = ready_script and inp = silent_embed_input]
      n2 h3 h4
    by blast
  have s4: "loadNintendoRom ready_script boot_then_throw_input = (Some (Resolved (VendorInstance 7)), True)"
    using loadNintendoRom_failure_paths [where sc = ready_script and inp = boot_then_throw_input
          and h = 7 and rest = "[]"] e3 g
    by blast
  have s5: "fst (loadNintendoRom stalled_script empty_rom_input) = None"
    using loadNintendoRom_failure_paths [where sc = stalled_script and inp = empty_rom_input] e4
    by blast
  have e6: "ensureNintendoLoaded (inBrowser slow_call_input) ready_script = Some True"
    using r by (simp add: slow_call_input_def silent_embed_input_def)
  have g6: "hasValidNesHeader (romBuffer slow_call_input)" "containerPresent slow_call_input"
    "embedSync slow_call_input = []" "\<not> embedThrows slow_call_input"
    "embedLater slow_call_input = [(4010, CbStarted (Some 7))]"
    "4010 \<le> embedReturnsAfter slow_call_input + BOOT_TIMEOUT_MS"
    by (simp_all add: slow_call_input_def silent_embed_input_def good_rom_def
        hasValidNesHeader_def BOOT_TIMEOUT_MS_def)
  have s6: "loadNintendoRom ready_script slow_call_input = (Some (Resolved (VendorInstance 7)), True)"
    using loadNintendoRom_failure_paths [where sc = ready_script and inp = slow_call_input
          and h = 7 and t = 4010 and later_rest = "[]"] e6 g6
    by blast
  show ?thesis
    using e1 h1 s1 s2 h5 h6 s3 g(1,3) s4 g6(5) s6 e4 s5 by (intro conjI)
qed

text \<open>
  C8 as stated fails in two ways. The embed call throws, but after its boot-started
  callback: the promise resolves with the runtime, not with a stub; likewise when an
  embed-error event follows a boot-started callback that came at 4000 ms. And with an empty
  ROM buffer the promise does not resolve at all when the wait for the script never ends.
\<close>

theorem boot_before_failure_counterexample:
  "embedThrows boot_then_throw_input
   \<and> fst (loadNintendoRom ready_script boot_then_throw_input) = Some (Resolved (VendorInstance 7))
   \<and> isStub (VendorInstance 7) = False
   \<and> fst (loadNintendoRom ready_script boot_then_error_input) = Some (Resolved (VendorInstance 7))
   \<and> romBuffer empty_rom_input = Some []
   \<and> fst (loadNintendoRom stalled_script empty_rom_input) = None"
  by (simp add: loadNintendoRom_def loadNintendoRom_resumed_def ensureNintendoLoaded_def
      ready_script_def stalled_script_def boot_then_throw_input_def boot_then_error_input_def
      empty_rom_input_def silent_embed_input_def good_rom_def hasValidNesHeader_def
      resolve_sources_def BOOT_TIMEOUT_MS_def Let_def)

subsection \<open>Superseded loads\<close>

lemma loadRom_complete_stale:
  "token \<noteq> loadToken s \<Longrightarrow>
     loadRom_complete autoStart token (Resolved nes) s = (s\<lparr>isLoading := False\<rparr>, None)"
  by (simp add: loadRom_complete_def)

lemma loadRom_finish_stale:
  assumes "token \<noteq> loadToken s"
  shows "loadRom_finish autoStart token fetched inp s = (s\<lparr>isLoading := False\<rparr>, None)"
proof -
  obtain nes where "fst (loadNintendoRom_resumed (inp\<lparr>romBuffer := Some (fetched_buffer fetched)\<rparr>)) = Resolved nes"
    using loadNintendoRom_resumed_resolves by blast
  with assms show ?thesis
    by (simp add: loadRom_finish_def loadRom_complete_stale)
qed

lemma loadRom_complete_ignores_isLoading:
  "fst (loadRom_complete autoStart token result (s\<lparr>isLoading := l\<rparr>))
     = fst (loadRom_complete autoStart token result s)"
  by (simp add: loadRom_complete_def Let_def split: promise_result.splits)

lemma loadRom_complete_current:
  "token = loadToken s \<Longrightarrow>
     loadToken (fst (loadRom_complete autoStart token result s)) = loadToken s
     \<and> isLoading (fst (loadRom_complete autoStart token result s)) = False"
  by (simp add: loadRom_complete_def Let_def split: promise_result.splits)

lemma loadRom_begin_token:
  "loadRom_begin True s = (s', Some t) \<Longrightarrow> t = loadToken s + 1 \<and> loadToken s' = t"
  by (auto simp: loadRom_begin_def Let_def)

text \<open>
  C2. A load whose token is not the latest one leaves the status, the running flag (ref and
  state), the emulator reference, the resume flag, the runtime's pause flag and the token as
  they are when it completes, whatever was fetched and whatever the loader met (a stub or a
  booted runtime), and returns nothing. For two loads issued one after the other, whichever
  completes first, the session ends exactly as if only the second had completed.
\<close>

theorem superseded_load_is_discarded:
  "(token \<noteq> loadToken s \<longrightarrow>
      status (fst (loadRom_finish autoStart token fetched inp s)) = status s
      \<and> running (fst (loadRom_finish autoStart token fetched inp s)) = running s
      \<and> isPlayingState (fst (loadRom_finish autoStart token fetched inp s)) = isPlayingState s
      \<and> nesRef (fst (loadRom_finish autoStart token fetched inp s)) = nesRef s
      \<and> resumeFromState (fst (loadRom_finish autoStart token fetched inp s)) = resumeFromState s
      \<and> gamePaused (fst (loadRom_finish autoStart token fetched inp s)) = gamePaused s
      \<and> loadToken (fst (loadRom_finish autoStart token fetched inp s)) = loadToken s
      \<and> snd (loadRom_finish autoStart token fetched inp s) = None)
   \<and> (loadRom_begin True s0 = (s1, Some t1) \<and> loadRom_begin True s1 = (s2, Some t2) \<longrightarrow>
        fst (loadRom_finish a2 t2 f2 i2 (fst (loadRom_finish a1 t1 f1 i1 s2)))
          = fst (loadRom_finish a2 t2 f2 i2 s2)
        \<and> fst (loadRom_finish a1 t1 f1 i1 (fst (loadRom_finish a2 t2 f2 i2 s2)))
          = fst (loadRom_finish a2 t2 f2 i2 s2))"
proof (intro conjI impI)
  assume "loadRom_begin True s0 = (s1, Some t1) \<and> loadRom_begin True s1 = (s2, Some t2)"
  then have b1: "t1 = loadToken s0 + 1 \<and> loadToken s1 = t1"
    and b2: "t2 = loadToken s1 + 1 \<and> loadToken s2 = t2"
    using loadRom_begin_token by blast+
  then have stale: "t1 \<noteq> loadToken s2" and cur: "t2 = loadToken s2"
    by simp_all
  show "fst (loadRom_finish a2 t2 f2 i2 (fst (loadRom_finish a1 t1 f1 i1 s2)))
          = fst (loadRom_finish a2 t2 f2 i2 s2)"
    using stale
    by (simp add: loadRom_finish_stale) (simp add: loadRom_finish_def loadRom_complete_ignores_isLoading)
  let ?s3 = "fst (loadRom_finish a2 t2 f2 i2 s2)"
  have "loadToken ?s3 = loadToken s2" and l: "isLoading ?s3 = False"
    using cur loadRom_complete_current [of t2 s2] by (simp_all add: loadRom_finish_def)
  with stale have "t1 \<noteq> loadToken ?s3" by simp
  then have "fst (loadRom_finish a1 t1 f1 i1 ?s3) = ?s3\<lparr>isLoading := False\<rparr>"
    by (simp add: loadRom_finish_stale)
  also have "\<dots> = ?s3"
    using l by (cases ?s3) simp
  finally show "fst (loadRom_finish a1 t1 f1 i1 ?s3) = ?s3" .
qed (simp_all add: loadRom_finish_stale)

text \<open>
  C2 at a first load that would boot a runtime and autostart, superseded by a second load of
  a ROM without a header: in both orders of completion the session ends in the error state
  of the second load, holding its stub.
\<close>

theorem superseded_load_is_discarded_witness:
  "loadRom_begin True initialSession = (fst (loadRom_begin True initialSession), Some 1)
   \<and> loadRom_begin True (fst (loadRom_begin True initialSession))
       = (fst (loadRom_begin True (fst (loadRom_begin True initialSession))), Some 2)
   \<and> 1 \<noteq> loadToken (fst (loadRom_begin True (fst (loadRom_begin True initialSession))))
   \<and> status (fst (loadRom_finish True 1 (FetchOk good_rom) booting_input
         (fst (loadRom_begin True (fst (loadRom_begin True initialSession)))))) = LoadingRom
   \<and> fst (loadRom_finish False 2 FetchNotOk booting_input
        (fst (loadRom_finish True 1 (FetchOk good_rom) booting_input
           (fst (loadRom_begin True (fst (loadRom_begin True initialSession)))))))
     = fst (loadRom_finish False 2 FetchNotOk booting_input
        (fst (loadRom_begin True (fst (loadRom_begin True initialSession)))))
   \<and> fst (loadRom_finish True 1 (FetchOk good_rom) booting_input
        (fst (loadRom_finish False 2 FetchNotOk booting_input
           (fst (loadRom_begin True (fst (loadRom_begin True initialSession)))))))
     = fst (loadRom_finish False 2 FetchNotOk booting_input
        (fst (loadRom_begin True (fst (loadRom_begin True initialSession)))))"
proof -
  let ?s1 = "fst (loadRom_begin True initialSession)"
  let ?s2 = "fst (loadRom_begin True ?s1)"
  have b1: "loadRom_begin True initialSession = (?s1, Some 1)"
    by (simp add: loadRom_begin_def initialSession_def Let_def)
  have b2: "loadRom_begin True ?s1 = (?s2, Some 2)"
    by (simp add: loadRom_begin_def initialSession_def Let_def)
  have t: "1 \<noteq> loadToken ?s2"
    by (simp add: loadRom_begin_def initialSession_def Let_def)
  have st: "status ?s2 = LoadingRom"
    by (simp add: loadRom_begin_def initialSession_def Let_def)
  show ?thesis
    using superseded_load_is_discarded [of 1 ?s2 True "FetchOk good_rom" booting_input
        initialSession ?s1 1 ?s2 2 False FetchNotOk booting_input True "FetchOk good_rom" booting_input]
      b1 b2 t st
    by simp
qed


section \<open>Properties of saving and of the stored scores\<close>

lemma find_first:
  "find P xs = Some e \<Longrightarrow>
     e \<in> set xs \<and> P e \<and> (\<forall>k \<in> set (takeWhile (\<lambda>k. k \<noteq> e) xs). \<not> P k)"
  by (induction xs) (auto split: if_splits)

lemma find_exists: "\<exists>k \<in> set xs. P k \<Longrightarrow> \<exists>e. find P xs = Some e"
  by (induction xs) auto

lemma find_none: "\<forall>k \<in> set xs. \<not> P k \<Longrightarrow> find P xs = None"
  by (induction xs) auto

lemma cloneStateSnapshot_extends:
  "r < length h \<Longrightarrow> deref (fst (cloneStateSnapshot env h state)) r = deref h r"
  by (simp add: cloneStateSnapshot_def Let_def deref_def nth_append split: option.splits)

text \<open>The session after a save that passes the guards, field by field.\<close>

lemma handleSaveState_saved:
  assumes "hasGame env" and "isAuthed env"
  shows "saveSlots (handleSaveState env (Some r) s)
      = AList.update (selectedSlot (handleSaveState env (Some r) s))
          \<lparr>slot_state = snd (cloneStateSnapshot env (objects s) r),
           savedAt = now env, slot_name = selectedSlot (handleSaveState env (Some r) s)\<rparr>
          (saveSlots s)"
    and "objects (handleSaveState env (Some r) s)
      = fst (cloneStateSnapshot env (objects s) r)"
    and "selectedSlot (handleSaveState env (Some r) s)
      = (case (if map_of (saveSlots s) (selectedSlot s) \<noteq> None
               then find (\<lambda>k. map_of (saveSlots s) k = None) slotOrder else None) of
           Some e \<Rightarrow> e | None \<Rightarrow> selectedSlot s)"
  using assms by (simp_all add: handleSaveState_def Let_def)

lemma saved_slot_lookup:
  assumes "hasGame env" and "isAuthed env"
  shows "map_of (saveSlots (handleSaveState env (Some r) s)) k
     = (if k = selectedSlot (handleSaveState env (Some r) s)
        then Some \<lparr>slot_state = snd (cloneStateSnapshot env (objects s) r),
                   savedAt = now env, slot_name = k\<rparr>
        else map_of (saveSlots s) k)"
  by (subst handleSaveState_saved(1) [OF assms]) (simp add: update_conv')

text \<open>
  C9. When the save goes through (a game, a signed-in owner, a runtime with \<open>toJSON\<close>): if
  the selected slot is occupied and one of slot1, slot2, slot3 is empty, the save goes to
  the first empty one of them, which becomes the selected slot, and every slot that was
  occupied keeps its record and the object it refers to; if the selected slot is occupied
  and all three are occupied, the selected slot is the one overwritten and every other slot
  is as before; if the selected slot is empty, the save goes there.
\<close>

theorem save_goes_to_first_empty_slot:
  assumes "hasGame env" and "isAuthed env"
  shows "(map_of (saveSlots s) (selectedSlot s) \<noteq> None
          \<and> (\<exists>k \<in> set slotOrder. map_of (saveSlots s) k = None) \<longrightarrow>
            selectedSlot (handleSaveState env (Some r) s) \<in> set slotOrder
            \<and> map_of (saveSlots s) (selectedSlot (handleSaveState env (Some r) s)) = None
            \<and> (\<forall>k \<in> set (takeWhile (\<lambda>k. k \<noteq> selectedSlot (handleSaveState env (Some r) s)) slotOrder).
                  map_of (saveSlots s) k \<noteq> None)
            \<and> (\<forall>k sl. map_of (saveSlots s) k = Some sl \<longrightarrow>
                  map_of (saveSlots (handleSaveState env (Some r) s)) k = Some sl
                  \<and> (slot_state sl < length (objects s) \<longrightarrow>
                       deref (objects (handleSaveState env (Some r) s)) (slot_state sl)
                         = deref (objects s) (slot_state sl))))
     \<and> (map_of (saveSlots s) (selectedSlot s) \<noteq> None
          \<and> (\<forall>k \<in> set slotOrder. map_of (saveSlots s) k \<noteq> None) \<longrightarrow>
            selectedSlot (handleSaveState env (Some r) s) = selectedSlot s
            \<and> (\<forall>k. k \<noteq> selectedSlot s \<longrightarrow>
                  map_of (saveSlots (handleSaveState env (Some r) s)) k = map_of (saveSlots s) k))
     \<and> (map_of (saveSlots s) (selectedSlot s) = None \<longrightarrow>
            selectedSlot (handleSaveState env (Some r) s) = selectedSlot s
            \<and> (\<forall>k sl. map_of (saveSlots s) k = Some sl \<longrightarrow>
                  map_of (saveSlots (handleSaveState env (Some r) s)) k = Some sl))
     \<and> (\<exists>sl. map_of (saveSlots (handleSaveState env (Some r) s))
                (selectedSlot (handleSaveState env (Some r) s)) = Some sl
              \<and> savedAt sl = now env)"
proof (intro conjI impI)
  let ?s' = "handleSaveState env (Some r) s"
  note look = saved_slot_lookup [OF assms, of r s]
  note sel = handleSaveState_saved(3) [OF assms, of r s]
  note obj = handleSaveState_saved(2) [OF assms, of r s]
  {
    assume a: "map_of (saveSlots s) (selectedSlot s) \<noteq> None
          \<and> (\<exists>k \<in> set slotOrder. map_of (saveSlots s) k = None)"
    then obtain e where e: "find (\<lambda>k. map_of (saveSlots s) k = None) slotOrder = Some e"
      using find_exists [of slotOrder "\<lambda>k. map_of (saveSlots s) k = None"] by blast
    with a have t: "selectedSlot ?s' = e"
      by (simp add: sel)
    from find_first [OF e] have fe: "e \<in> set slotOrder" "map_of (saveSlots s) e = None"
      "\<forall>k \<in> set (takeWhile (\<lambda>k. k \<noteq> e) slotOrder). map_of (saveSlots s) k \<noteq> None"
      by simp_all
    show "selectedSlot ?s' \<in> set slotOrder" using t fe(1) by simp
    show "map_of (saveSlots s) (selectedSlot ?s') = None" using t fe(2) by simp
    show "\<forall>k \<in> set (takeWhile (\<lambda>k. k \<noteq> selectedSlot ?s') slotOrder). map_of (saveSlots s) k \<noteq> None"
      using t fe(3) by simp
    show "\<forall>k sl. map_of (saveSlots s) k = Some sl \<longrightarrow>
                  map_of (saveSlots ?s') k = Some sl
                  \<and> (slot_state sl < length (objects s) \<longrightarrow>
                       deref (objects ?s') (slot_state sl) = deref (objects s) (slot_state sl))"
    proof (intro allI impI conjI)
      fix k sl
      assume k: "map_of (saveSlots s) k = Some sl"
      with fe(2) t have "k \<noteq> selectedSlot ?s'" by auto
      with k show "map_of (saveSlots ?s') k = Some sl" by (simp add: look)
      assume "slot_state sl < length (objects s)"
      then show "deref (objects ?s') (slot_state sl) = deref (objects s) (slot_state sl)"
        by (simp add: obj cloneStateSnapshot_extends)
    qed
  }
  {
    assume a: "map_of (saveSlots s) (selectedSlot s) \<noteq> None
          \<and> (\<forall>k \<in> set slotOrder. map_of (saveSlots s) k \<noteq> None)"
    then have "find (\<lambda>k. map_of (saveSlots s) k = None) slotOrder = None"
      by (intro find_none) simp
    then show t: "selectedSlot ?s' = selectedSlot s"
      by (simp add: sel)
    show "\<forall>k. k \<noteq> selectedSlot s \<longrightarrow> map_of (saveSlots ?s') k = map_of (saveSlots s) k"
      using t by (simp add: look)
  }
  {
    assume a: "map_of (saveSlots s) (selectedSlot s) = None"
    then show t: "selectedSlot ?s' = selectedSlot s"
      by (simp add: sel)
    show "\<forall>k sl. map_of (saveSlots s) k = Some sl \<longrightarrow> map_of (saveSlots ?s') k = Some sl"
      using t a by (auto simp: look)
  }
  show "\<exists>sl. map_of (saveSlots ?s') (selectedSlot ?s') = Some sl \<and> savedAt sl = now env"
    by (simp add: look)
qed

text \<open>
  C9 with slot1 (selected) and slot3 occupied and slot2 empty: the save goes to slot2,
  slot1 and slot3 keep their records. With all three occupied and slot2 selected, slot2 is
  overwritten and slot1 and slot3 are kept. With nothing saved yet, the save goes to the
  selected slot1.
\<close>

theorem save_goes_to_first_empty_slot_witness:
  "hasGame save_env \<and> isAuthed save_env
   \<and> map_of (saveSlots two_saves) (selectedSlot two_saves)
       = Some \<lparr>slot_state = 1, savedAt = 10, slot_name = ''slot1''\<rparr>
   \<and> map_of (saveSlots two_saves) ''slot2'' = None
   \<and> selectedSlot (handleSaveState save_env (Some 0) two_saves) = ''slot2''
   \<and> map_of (saveSlots (handleSaveState save_env (Some 0) two_saves)) ''slot1''
       = Some \<lparr>slot_state = 1, savedAt = 10, slot_name = ''slot1''\<rparr>
   \<and> map_of (saveSlots (handleSaveState save_env (Some 0) two_saves)) ''slot3''
       = Some \<lparr>slot_state = 2, savedAt = 20, slot_name = ''slot3''\<rparr>
   \<and> selectedSlot (handleSaveState save_env (Some 0) three_saves) = ''slot2''
   \<and> map_of (saveSlots (handleSaveState save_env (Some 0) three_saves)) ''slot1''
       = Some \<lparr>slot_state = 1, savedAt = 10, slot_name = ''slot1''\<rparr>
   \<and> map_of (saveSlots (handleSaveState save_env (Some 0) three_saves)) ''slot3''
       = Some \<lparr>slot_state = 2, savedAt = 30, slot_name = ''slot3''\<rparr>
   \<and> map_of (saveSlots (empty_slots [plain_snapshot])) (selectedSlot (empty_slots [plain_snapshot]))
       = None
   \<and> selectedSlot (handleSaveState save_env (Some 0) (empty_slots [plain_snapshot])) = ''slot1''"
proof -
  have g: "hasGame save_env" "isAuthed save_env"
    by (simp_all add: save_env_def)
  have o: "map_of (saveSlots two_saves) (selectedSlot two_saves)
       = Some \<lparr>slot_state = 1, savedAt = 10, slot_name = ''slot1''\<rparr>"
    and e: "map_of (saveSlots two_saves) ''slot2'' = None"
    and o3: "map_of (saveSlots two_saves) ''slot3''
       = Some \<lparr>slot_state = 2, savedAt = 20, slot_name = ''slot3''\<rparr>"
    and sel: "selectedSlot two_saves = ''slot1''"
    by (simp_all add: two_saves_def)
  have ex: "\<exists>k \<in> set slotOrder. map_of (saveSlots two_saves) k = None"
    using e by (auto simp: slotOrder_def)
  have t: "selectedSlot (handleSaveState save_env (Some 0) two_saves) = ''slot2''"
    by (simp add: handleSaveState_saved(3) [OF g] two_saves_def slotOrder_def)
  from save_goes_to_first_empty_slot [OF g, of two_saves 0] o ex
  have keep: "\<forall>k sl. map_of (saveSlots two_saves) k = Some sl \<longrightarrow>
       map_of (saveSlots (handleSaveState save_env (Some 0) two_saves)) k = Some sl"
    by simp
  from keep o sel have k1: "map_of (saveSlots (handleSaveState save_env (Some 0) two_saves)) ''slot1''
       = Some \<lparr>slot_state = 1, savedAt = 10, slot_name = ''slot1''\<rparr>"
    by simp
  from keep o3 have k3: "map_of (saveSlots (handleSaveState save_env (Some 0) two_saves)) ''slot3''
       = Some \<lparr>slot_state = 2, savedAt = 20, slot_name = ''slot3''\<rparr>"
    by simp
  have full: "map_of (saveSlots three_saves) (selectedSlot three_saves) \<noteq> None
      \<and> (\<forall>k \<in> set slotOrder. map_of (saveSlots three_saves) k \<noteq> None)"
    and sel3: "selectedSlot three_saves = ''slot2''"
    and f1: "map_of (saveSlots three_saves) ''slot1''
       = Some \<lparr>slot_state = 1, savedAt = 10, slot_name = ''slot1''\<rparr>"
    and f3: "map_of (saveSlots three_saves) ''slot3''
       = Some \<lparr>slot_state = 2, savedAt = 30, slot_name = ''slot3''\<rparr>"
    by (simp_all add: three_saves_def slotOrder_def)
  from save_goes_to_first_empty_slot [OF g, of three_saves 0] full
  have over: "selectedSlot (handleSaveState save_env (Some 0) three_saves) = selectedSlot three_saves"
    and rest: "\<forall>k. k \<noteq> selectedSlot three_saves \<longrightarrow>
       map_of (saveSlots (handleSaveState save_env (Some 0) three_saves)) k
         = map_of (saveSlots three_saves) k"
    by simp_all
  from rest sel3 f1 have r1: "map_of (saveSlots (handleSaveState save_env (Some 0) three_saves)) ''slot1''
       = Some \<lparr>slot_state = 1, savedAt = 10, slot_name = ''slot1''\<rparr>"
    by simp
  from rest sel3 f3 have r3: "map_of (saveSlots (handleSaveState save_env (Some 0) three_saves)) ''slot3''
       = Some \<lparr>slot_state = 2, savedAt = 30, slot_name = ''slot3''\<rparr>"
    by simp
  have none: "map_of (saveSlots (empty_slots [plain_snapshot]))
       (selectedSlot (empty_slots [plain_snapshot])) = None"
    and sel0: "selectedSlot (empty_slots [plain_snapshot]) = ''slot1''"
    by (simp_all add: empty_slots_def)
  from save_goes_to_first_empty_slot [OF g, of "empty_slots [plain_snapshot]" 0] none
  have fresh: "selectedSlot (handleSaveState save_env (Some 0) (empty_slots [plain_snapshot]))
      = selectedSlot (empty_slots [plain_snapshot])"
    by simp
  from g o e t k1 k3 over sel3 r1 r3 none fresh sel0 show ?thesis by simp
qed

subsection \<open>The saved snapshot and the runtime's object\<close>

lemma cloneStateSnapshot_copied:
  assumes "try_structuredClone env (deref h r) = Some c
      \<or> (try_structuredClone env (deref h r) = None \<and> json_roundtrip env (deref h r) = Some c)"
  shows "cloneStateSnapshot env h r = (h @ [c], length h)"
  using assms by (auto simp: cloneStateSnapshot_def Let_def)

lemma cloneStateSnapshot_shared:
  assumes "try_structuredClone env (deref h r) = None" and "json_roundtrip env (deref h r) = None"
  shows "cloneStateSnapshot env h r = (h, r)"
  using assms by (simp add: cloneStateSnapshot_def Let_def)

lemma map_of_slots_entries:
  "map_of (slots_entries h slots) k = map_option (slot_object h) (map_of slots k)"
  by (induction slots) (auto simp: slots_entries_def)

lemma handleSaveState_written:
  assumes "hasGame env" and "isAuthed env"
  shows "storedSlots (handleSaveState env (Some r) s)
      = (if hasWindow env
         then (case stringifyJSON env (slots_object (objects (handleSaveState env (Some r) s))
                                         (saveSlots (handleSaveState env (Some r) s))) of
                 None \<Rightarrow> storedSlots s
               | Some text \<Rightarrow> if storageWritable env then Some text else storedSlots s)
         else storedSlots s)"
  using assms by (simp add: handleSaveState_def Let_def)

text \<open>
  C7, amended. When the save goes through and \<open>structuredClone\<close> or, where it is missing
  or throws, the JSON round trip returns, the slot refers to the object returned, a new
  object (for the JSON round trip, what \<open>JSON.parse\<close> reads back from the text
  \<open>JSON.stringify\<close> wrote): whatever the runtime writes into its own object afterwards,
  the slot holds the object returned, and so does the slot's entry in the object given to
  \<open>JSON.stringify\<close>. When neither returns (\<open>structuredClone\<close> missing or throwing, and
  \<open>JSON.stringify\<close> or \<open>JSON.parse\<close> throwing), the slot refers to the runtime's own
  object and holds whatever the runtime writes into it afterwards. The text put in
  \<open>localStorage\<close> is the one \<open>JSON.stringify\<close> gives for the slots as they are at the
  end of the save; when there is no window, or \<open>JSON.stringify\<close> or \<open>setItem\<close> throws,
  \<open>localStorage\<close> keeps what it had.
\<close>

theorem saved_snapshot_is_a_copy:
  assumes "hasGame env" and "isAuthed env" and "r < length (objects s)"
  shows "(try_structuredClone env (deref (objects s) r) = Some c
          \<or> (try_structuredClone env (deref (objects s) r) = None
              \<and> json_roundtrip env (deref (objects s) r) = Some c) \<longrightarrow>
            objects (handleSaveState env (Some r) s) = objects s @ [c]
            \<and> map_of (saveSlots (handleSaveState env (Some r) s))
                  (selectedSlot (handleSaveState env (Some r) s))
                = Some \<lparr>slot_state = length (objects s), savedAt = now env,
                         slot_name = selectedSlot (handleSaveState env (Some r) s)\<rparr>
            \<and> slot_content (handleSaveState env (Some r) s)
                  (selectedSlot (handleSaveState env (Some r) s)) = Some c
            \<and> slot_content
                  ((handleSaveState env (Some r) s)
                     \<lparr>objects := mutate r w (objects (handleSaveState env (Some r) s))\<rparr>)
                  (selectedSlot (handleSaveState env (Some r) s)) = Some c
            \<and> map_of (slots_entries (mutate r w (objects (handleSaveState env (Some r) s)))
                         (saveSlots (handleSaveState env (Some r) s)))
                  (selectedSlot (handleSaveState env (Some r) s))
                = Some (JObj [(''state'', c), (''savedAt'', JNum (Finite (real (now env)))),
                              (''slot'', JStr (selectedSlot (handleSaveState env (Some r) s)))]))
     \<and> (try_structuredClone env (deref (objects s) r) = None
          \<and> json_roundtrip env (deref (objects s) r) = None \<longrightarrow>
            objects (handleSaveState env (Some r) s) = objects s
            \<and> map_of (saveSlots (handleSaveState env (Some r) s))
                  (selectedSlot (handleSaveState env (Some r) s))
                = Some \<lparr>slot_state = r, savedAt = now env,
                         slot_name = selectedSlot (handleSaveState env (Some r) s)\<rparr>
            \<and> slot_content (handleSaveState env (Some r) s)
                  (selectedSlot (handleSaveState env (Some r) s)) = Some (deref (objects s) r)
            \<and> slot_content
                  ((handleSaveState env (Some r) s)
                     \<lparr>objects := mutate r w (objects (handleSaveState env (Some r) s))\<rparr>)
                  (selectedSlot (handleSaveState env (Some r) s)) = Some w
            \<and> map_of (slots_entries (mutate r w (objects (handleSaveState env (Some r) s)))
                         (saveSlots (handleSaveState env (Some r) s)))
                  (selectedSlot (handleSaveState env (Some r) s))
                = Some (JObj [(''state'', w), (''savedAt'', JNum (Finite (real (now env)))),
                              (''slot'', JStr (selectedSlot (handleSaveState env (Some r) s)))]))
     \<and> (hasWindow env \<and> storageWritable env
          \<and> stringifyJSON env (slots_object (objects (handleSaveState env (Some r) s))
                                 (saveSlots (handleSaveState env (Some r) s))) = Some written \<longrightarrow>
            storedSlots (handleSaveState env (Some r) s) = Some written)
     \<and> (\<not> hasWindow env \<or> \<not> storageWritable env
          \<or> stringifyJSON env (slots_object (objects (handleSaveState env (Some r) s))
                                 (saveSlots (handleSaveState env (Some r) s))) = None \<longrightarrow>
            storedSlots (handleSaveState env (Some r) s) = storedSlots s)"
proof (intro conjI impI)
  let ?s' = "handleSaveState env (Some r) s"
  let ?h = "objects s"
  let ?k = "selectedSlot ?s'"
  note g = assms(1,2)
  note obj = handleSaveState_saved(2) [OF g, of r s]
  note look = saved_slot_lookup [OF g, of r s "?k"]
  {
    assume a: "try_structuredClone env (deref ?h r) = Some c
          \<or> (try_structuredClone env (deref ?h r) = None \<and> json_roundtrip env (deref ?h r) = Some c)"
    then have cl: "cloneStateSnapshot env ?h r = (?h @ [c], length ?h)"
      by (rule cloneStateSnapshot_copied)
    show o: "objects ?s' = ?h @ [c]"
      by (simp add: obj cl)
    show l: "map_of (saveSlots ?s') ?k
        = Some \<lparr>slot_state = length ?h, savedAt = now env, slot_name = ?k\<rparr>"
      by (simp add: look cl)
    have d: "deref (objects ?s') (length ?h) = c"
      by (simp add: o deref_def)
    have m: "deref (mutate r w (objects ?s')) (length ?h) = c"
      using assms(3) by (simp add: o deref_def mutate_def nth_append)
    show "slot_content ?s' ?k = Some c"
      by (simp add: slot_content_def l d)
    show "slot_content (?s'\<lparr>objects := mutate r w (objects ?s')\<rparr>) ?k = Some c"
      by (simp add: slot_content_def l m)
    show "map_of (slots_entries (mutate r w (objects ?s')) (saveSlots ?s')) ?k
        = Some (JObj [(''state'', c), (''savedAt'', JNum (Finite (real (now env)))),
                      (''slot'', JStr ?k)])"
      by (simp add: map_of_slots_entries l slot_object_def m)
  }
  {
    assume a: "try_structuredClone env (deref ?h r) = None \<and> json_roundtrip env (deref ?h r) = None"
    then have cl: "cloneStateSnapshot env ?h r = (?h, r)"
      by (intro cloneStateSnapshot_shared) simp_all
    show o: "objects ?s' = ?h"
      by (simp add: obj cl)
    show l: "map_of (saveSlots ?s') ?k = Some \<lparr>slot_state = r, savedAt = now env, slot_name = ?k\<rparr>"
      by (simp add: look cl)
    have m: "deref (mutate r w (objects ?s')) r = w"
      using assms(3) by (simp add: o deref_def mutate_def)
    show "slot_content ?s' ?k = Some (deref ?h r)"
      by (simp add: slot_content_def l o)
    show "slot_content (?s'\<lparr>objects := mutate r w (objects ?s')\<rparr>) ?k = Some w"
      by (simp add: slot_content_def l m)
    show "map_of (slots_entries (mutate r w (objects ?s')) (saveSlots ?s')) ?k
        = Some (JObj [(''state'', w), (''savedAt'', JNum (Finite (real (now env)))),
                      (''slot'', JStr ?k)])"
      by (simp add: map_of_slots_entries l slot_object_def m)
  }
  {
    assume "hasWindow env \<and> storageWritable env
          \<and> stringifyJSON env (slots_object (objects ?s') (saveSlots ?s')) = Some written"
    then show "storedSlots ?s' = Some written"
      by (simp add: handleSaveState_written [OF g])
  }
  {
    assume "\<not> hasWindow env \<or> \<not> storageWritable env
          \<or> stringifyJSON env (slots_object (objects ?s') (saveSlots ?s')) = None"
    then show "storedSlots ?s' = storedSlots s"
      by (auto simp: handleSaveState_written [OF g] split: option.splits)
  }
qed

lemma plain_first_save:
  "handleSaveState save_env (Some 0) (empty_slots [plain_snapshot])
     = \<lparr>saveSlots = [(''slot1'', \<lparr>slot_state = 1, savedAt = 1000, slot_name = ''slot1''\<rparr>)],
        selectedSlot = ''slot1'', objects = [plain_snapshot, plain_snapshot],
        storedSlots = Some plain_slots_text\<rparr>"
  by (simp add: handleSaveState_def save_env_def empty_slots_def Let_def cloneStateSnapshot_def
      try_structuredClone_def sample_structuredClone_def deref_def slots_object_def
      slots_entries_def slot_object_def sample_stringify_def sample_entry_def
      plain_snapshot_def ram_snapshot_def)

lemma ram_first_save:
  "handleSaveState older_env (Some 0) (empty_slots [ram_snapshot])
     = \<lparr>saveSlots = [(''slot1'', \<lparr>slot_state = 1, savedAt = 1000, slot_name = ''slot1''\<rparr>)],
        selectedSlot = ''slot1'', objects = [ram_snapshot, ram_snapshot],
        storedSlots = Some ram_slots_text\<rparr>"
  by (simp add: handleSaveState_def older_env_def save_env_def empty_slots_def Let_def
      cloneStateSnapshot_def try_structuredClone_def json_roundtrip_def sample_parse_def
      deref_def slots_object_def slots_entries_def slot_object_def sample_stringify_def
      sample_entry_def plain_snapshot_def ram_snapshot_def)

lemma exotic_first_save:
  "handleSaveState save_env (Some 0) (empty_slots [exotic_snapshot])
     = \<lparr>saveSlots = [(''slot1'', \<lparr>slot_state = 0, savedAt = 1000, slot_name = ''slot1''\<rparr>)],
        selectedSlot = ''slot1'', objects = [exotic_snapshot], storedSlots = None\<rparr>"
  by (simp add: handleSaveState_def save_env_def empty_slots_def Let_def cloneStateSnapshot_def
      try_structuredClone_def sample_structuredClone_def json_roundtrip_def deref_def
      slots_object_def slots_entries_def slot_object_def sample_stringify_def sample_entry_def
      exotic_snapshot_def plain_snapshot_def ram_snapshot_def later_frame_def)

text \<open>
  The amended C7 at three first saves into slot1, the runtime then moving on to its next
  frame: a plain-data snapshot copied by \<open>structuredClone\<close>; an array copied by the JSON
  round trip in a browser without \<open>structuredClone\<close>; and a snapshot with a function and
  a BigInt, which neither copies, so that the slot holds the next frame and nothing is put
  in \<open>localStorage\<close>.
\<close>

theorem saved_snapshot_is_a_copy_witness:
  "try_structuredClone save_env (deref (objects (empty_slots [plain_snapshot])) 0) = Some plain_snapshot
   \<and> slot_content
        ((handleSaveState save_env (Some 0) (empty_slots [plain_snapshot]))
           \<lparr>objects := mutate 0 later_frame
              (objects (handleSaveState save_env (Some 0) (empty_slots [plain_snapshot])))\<rparr>)
        ''slot1''
      = Some plain_snapshot
   \<and> storedSlots (handleSaveState save_env (Some 0) (empty_slots [plain_snapshot]))
      = Some plain_slots_text
   \<and> try_structuredClone older_env (deref (objects (empty_slots [ram_snapshot])) 0) = None
   \<and> json_roundtrip older_env (deref (objects (empty_slots [ram_snapshot])) 0) = Some ram_snapshot
   \<and> slot_content
        ((handleSaveState older_env (Some 0) (empty_slots [ram_snapshot]))
           \<lparr>objects := mutate 0 later_frame
              (objects (handleSaveState older_env (Some 0) (empty_slots [ram_snapshot])))\<rparr>)
        ''slot1''
      = Some ram_snapshot
   \<and> storedSlots (handleSaveState older_env (Some 0) (empty_slots [ram_snapshot]))
      = Some ram_slots_text
   \<and> try_structuredClone save_env (deref (objects (empty_slots [exotic_snapshot])) 0) = None
   \<and> json_roundtrip save_env (deref (objects (empty_slots [exotic_snapshot])) 0) = None
   \<and> slot_content
        ((handleSaveState save_env (Some 0) (empty_slots [exotic_snapshot]))
           \<lparr>objects := mutate 0 later_frame
              (objects (handleSaveState save_env (Some 0) (empty_slots [exotic_snapshot])))\<rparr>)
        ''slot1''
      = Some later_frame
   \<and> storedSlots (handleSaveState save_env (Some 0) (empty_slots [exotic_snapshot])) = None"
proof -
  have g: "hasGame save_env" "isAuthed save_env" "hasGame older_env" "isAuthed older_env"
    and w: "hasWindow save_env" "storageWritable save_env" "hasWindow older_env"
      "storageWritable older_env"
    and n: "now save_env = 1000" "now older_env = 1000"
    and f: "stringifyJSON save_env = sample_stringify" "stringifyJSON older_env = sample_stringify"
    by (simp_all add: save_env_def older_env_def)
  have l: "0 < length (objects (empty_slots [v]))" for v
    by (simp add: empty_slots_def)
  have d: "deref (objects (empty_slots [v])) 0 = v" for v
    by (simp add: empty_slots_def deref_def)
  have st: "storedSlots (empty_slots [v]) = None" for v
    by (simp add: empty_slots_def)
  have t1: "try_structuredClone save_env plain_snapshot = Some plain_snapshot"
    by (simp add: try_structuredClone_def save_env_def sample_structuredClone_def plain_snapshot_def)
  have t2: "try_structuredClone older_env ram_snapshot = None"
    by (simp add: try_structuredClone_def older_env_def)
  have j2: "json_roundtrip older_env ram_snapshot = Some ram_snapshot"
    by (simp add: json_roundtrip_def older_env_def save_env_def sample_stringify_def
        sample_parse_def ram_snapshot_def)
  have t3: "try_structuredClone save_env exotic_snapshot = None"
    by (simp add: try_structuredClone_def save_env_def sample_structuredClone_def exotic_snapshot_def)
  have j3: "json_roundtrip save_env exotic_snapshot = None"
    by (simp add: json_roundtrip_def save_env_def sample_stringify_def sample_entry_def
        exotic_snapshot_def ram_snapshot_def)
  have h1: "try_structuredClone save_env (deref (objects (empty_slots [plain_snapshot])) 0)
      = Some plain_snapshot"
    and h2: "try_structuredClone older_env (deref (objects (empty_slots [ram_snapshot])) 0) = None"
      "json_roundtrip older_env (deref (objects (empty_slots [ram_snapshot])) 0) = Some ram_snapshot"
    and h3: "try_structuredClone save_env (deref (objects (empty_slots [exotic_snapshot])) 0) = None"
      "json_roundtrip save_env (deref (objects (empty_slots [exotic_snapshot])) 0) = None"
    by (simp_all add: d t1 t2 j2 t3 j3)
  have x1: "stringifyJSON save_env
        (slots_object (objects (handleSaveState save_env (Some 0) (empty_slots [plain_snapshot])))
           (saveSlots (handleSaveState save_env (Some 0) (empty_slots [plain_snapshot]))))
      = Some plain_slots_text"
    unfolding plain_first_save f
    by (simp add: slots_object_def slots_entries_def slot_object_def deref_def
        sample_stringify_def sample_entry_def plain_snapshot_def ram_snapshot_def)
  have x2: "stringifyJSON older_env
        (slots_object (objects (handleSaveState older_env (Some 0) (empty_slots [ram_snapshot])))
           (saveSlots (handleSaveState older_env (Some 0) (empty_slots [ram_snapshot]))))
      = Some ram_slots_text"
    unfolding ram_first_save f
    by (simp add: slots_object_def slots_entries_def slot_object_def deref_def
        sample_stringify_def sample_entry_def plain_snapshot_def ram_snapshot_def)
  have x3: "stringifyJSON save_env
        (slots_object (objects (handleSaveState save_env (Some 0) (empty_slots [exotic_snapshot])))
           (saveSlots (handleSaveState save_env (Some 0) (empty_slots [exotic_snapshot]))))
      = None"
    unfolding exotic_first_save f
    by (simp add: slots_object_def slots_entries_def slot_object_def deref_def
        sample_stringify_def sample_entry_def exotic_snapshot_def plain_snapshot_def
        ram_snapshot_def later_frame_def)
  have k1: "selectedSlot (handleSaveState save_env (Some 0) (empty_slots [plain_snapshot])) = ''slot1''"
    and k2: "selectedSlot (handleSaveState older_env (Some 0) (empty_slots [ram_snapshot])) = ''slot1''"
    and k3: "selectedSlot (handleSaveState save_env (Some 0) (empty_slots [exotic_snapshot])) = ''slot1''"
    by (simp_all add: plain_first_save ram_first_save exotic_first_save)
  note T1 = saved_snapshot_is_a_copy [OF g(1,2) l [of plain_snapshot], where c = plain_snapshot
      and w = later_frame and written = plain_slots_text]
  note T2 = saved_snapshot_is_a_copy [OF g(3,4) l [of ram_snapshot], where c = ram_snapshot
      and w = later_frame and written = ram_slots_text]
  note T3 = saved_snapshot_is_a_copy [OF g(1,2) l [of exotic_snapshot], where w = later_frame]
  have c1: "slot_content
        ((handleSaveState save_env (Some 0) (empty_slots [plain_snapshot]))
           \<lparr>objects := mutate 0 later_frame
              (objects (handleSaveState save_env (Some 0) (empty_slots [plain_snapshot])))\<rparr>)
        ''slot1'' = Some plain_snapshot"
    using T1 h1 unfolding k1 by blast
  have w1: "storedSlots (handleSaveState save_env (Some 0) (empty_slots [plain_snapshot]))
      = Some plain_slots_text"
    using T1 w(1,2) x1 by blast
  have c2: "slot_content
        ((handleSaveState older_env (Some 0) (empty_slots [ram_snapshot]))
           \<lparr>objects := mutate 0 later_frame
              (objects (handleSaveState older_env (Some 0) (empty_slots [ram_snapshot])))\<rparr>)
        ''slot1'' = Some ram_snapshot"
    using T2 h2 unfolding k2 by blast
  have w2: "storedSlots (handleSaveState older_env (Some 0) (empty_slots [ram_snapshot]))
      = Some ram_slots_text"
    using T2 w(3,4) x2 by blast
  have c3: "slot_content
        ((handleSaveState save_env (Some 0) (empty_slots [exotic_snapshot]))
           \<lparr>objects := mutate 0 later_frame
              (objects (handleSaveState save_env (Some 0) (empty_slots [exotic_snapshot])))\<rparr>)
        ''slot1'' = Some later_frame"
    using T3 h3 unfolding k3 by blast
  have "storedSlots (handleSaveState save_env (Some 0) (empty_slots [exotic_snapshot]))
      = storedSlots (empty_slots [exotic_snapshot])"
    using T3 x3 by blast
  then have w3: "storedSlots (handleSaveState save_env (Some 0) (empty_slots [exotic_snapshot])) = None"
    by (simp add: st)
  show ?thesis
    using h1 c1 w1 h2 c2 w2 h3 c3 w3 by (intro conjI)
qed

lemma shared_second_save:
  "handleSaveState save_env (Some 0)
     \<lparr>saveSlots = [(''slot1'', \<lparr>slot_state = 0, savedAt = 1000, slot_name = ''slot1''\<rparr>)],
      selectedSlot = ''slot1'', objects = [later_frame], storedSlots = None\<rparr>
     = \<lparr>saveSlots = [(''slot1'', \<lparr>slot_state = 0, savedAt = 1000, slot_name = ''slot1''\<rparr>),
                     (''slot2'', \<lparr>slot_state = 1, savedAt = 1000, slot_name = ''slot2''\<rparr>)],
        selectedSlot = ''slot2'', objects = [later_frame, later_frame],
        storedSlots = Some shared_slots_text\<rparr>"
proof -
  have c: "cloneStateSnapshot save_env [later_frame] 0 = ([later_frame, later_frame], 1)"
    by (simp add: cloneStateSnapshot_def Let_def deref_def try_structuredClone_def save_env_def
        sample_structuredClone_def later_frame_def)
  have o: "slots_object [later_frame, later_frame]
        [(''slot1'', \<lparr>slot_state = 0, savedAt = 1000, slot_name = ''slot1''\<rparr>),
         (''slot2'', \<lparr>slot_state = Suc 0, savedAt = 1000, slot_name = ''slot2''\<rparr>)]
      = JObj [sample_entry ''slot1'' later_frame, sample_entry ''slot2'' later_frame]"
    by (simp add: slots_object_def slots_entries_def slot_object_def deref_def sample_entry_def)
  have t: "sample_stringify (JObj [sample_entry ''slot1'' later_frame, sample_entry ''slot2'' later_frame])
      = Some shared_slots_text"
    by (simp add: sample_stringify_def sample_entry_def ram_snapshot_def plain_snapshot_def
        later_frame_def)
  have e: "hasGame save_env" "isAuthed save_env" "hasWindow save_env" "storageWritable save_env"
    "now save_env = 1000" "stringifyJSON save_env = sample_stringify"
    by (simp_all add: save_env_def)
  show ?thesis
    by (simp add: handleSaveState_def Let_def c e slotOrder_def o t)
qed

text \<open>
  C7 as stated fails for a snapshot that neither copy accepts (it holds a function, on
  which \<open>structuredClone\<close> throws, and a BigInt, on which \<open>JSON.stringify\<close> throws):
  \<open>cloneStateSnapshot\<close> returns the runtime's own object, the slot refers to it, and the
  runtime's next write shows through the slot. Nothing is put in \<open>localStorage\<close> by that
  save; the next save, into slot2, writes slot1 there with the runtime's later frame.
\<close>

theorem uncopyable_snapshot_is_shared_counterexample:
  "slot_content (handleSaveState save_env (Some 0) (empty_slots [exotic_snapshot])) ''slot1''
     = Some exotic_snapshot
   \<and> slot_content
        ((handleSaveState save_env (Some 0) (empty_slots [exotic_snapshot]))
           \<lparr>objects := mutate 0 later_frame
              (objects (handleSaveState save_env (Some 0) (empty_slots [exotic_snapshot])))\<rparr>)
        ''slot1''
     = Some later_frame
   \<and> later_frame \<noteq> exotic_snapshot
   \<and> storedSlots (handleSaveState save_env (Some 0) (empty_slots [exotic_snapshot])) = None
   \<and> storedSlots
        (handleSaveState save_env (Some 0)
           ((handleSaveState save_env (Some 0) (empty_slots [exotic_snapshot]))
              \<lparr>objects := mutate 0 later_frame
                 (objects (handleSaveState save_env (Some 0) (empty_slots [exotic_snapshot])))\<rparr>))
     = Some shared_slots_text"
proof -
  have m: "(handleSaveState save_env (Some 0) (empty_slots [exotic_snapshot]))
           \<lparr>objects := mutate 0 later_frame
              (objects (handleSaveState save_env (Some 0) (empty_slots [exotic_snapshot])))\<rparr>
      = \<lparr>saveSlots = [(''slot1'', \<lparr>slot_state = 0, savedAt = 1000, slot_name = ''slot1''\<rparr>)],
         selectedSlot = ''slot1'', objects = [later_frame], storedSlots = None\<rparr>"
    unfolding exotic_first_save by (simp add: mutate_def)
  have d: "later_frame \<noteq> exotic_snapshot"
    by (simp add: later_frame_def exotic_snapshot_def)
  show ?thesis
    unfolding m shared_second_save
    unfolding exotic_first_save
    using d by (simp add: slot_content_def deref_def)
qed

subsection \<open>Stored scores\<close>

lemma loadStoredScores_try_finite:
  "loadStoredScores_try parse st rom uid = Some scores \<Longrightarrow> \<forall>v \<in> set scores. is_finite_number v"
  by (auto simp: loadStoredScores_try_def Let_def split: option.splits jsval.splits if_splits)

lemma is_finite_number_iff: "is_finite_number v = (\<exists>x. v = JNum (Finite x))"
  by (cases v rule: is_finite_number.cases) simp_all

text \<open>
  C10. \<open>loadStoredScores\<close> always returns a list (every throw inside the \<open>try\<close> ends in
  \<open>[]\<close>), and every element of it is a finite number. When the key holds a non-empty
  text, the result is the finite-number elements of the parsed array, in order, and the
  empty list when the text does not parse or does not parse to an array; the same holds of
  the text under the legacy key, which is read when the key holds none and a user is given.
  Outside a browser, when \<open>localStorage\<close> throws, and when no text is found, the result is
  the empty list.
\<close>

theorem loadStoredScores_finite_numbers:
  "(\<forall>v \<in> set (loadStoredScores isBrowser parse st rom uid). \<exists>x. v = JNum (Finite x))
   \<and> (isBrowser \<and> st = Some items \<and> items (scoreStorageKey rom uid) = Some raw \<and> raw \<noteq> [] \<longrightarrow>
        loadStoredScores isBrowser parse st rom uid
          = (case parse raw of
               Some (JArr xs) \<Rightarrow> filter is_finite_number xs
             | _ \<Rightarrow> []))
   \<and> (\<not> isBrowser \<or> st = None \<longrightarrow> loadStoredScores isBrowser parse st rom uid = [])
   \<and> (isBrowser \<and> st = Some items \<and> \<not> truthy (items (scoreStorageKey rom uid))
        \<and> truthy uid \<and> items (NES_SCORE_STORAGE_PREFIX @ rom) = Some legacy \<and> legacy \<noteq> [] \<longrightarrow>
        loadStoredScores isBrowser parse st rom uid
          = (case parse legacy of
               Some (JArr xs) \<Rightarrow> filter is_finite_number xs
             | _ \<Rightarrow> []))
   \<and> (st = Some items \<and> \<not> truthy (items (scoreStorageKey rom uid))
        \<and> (\<not> truthy uid \<or> \<not> truthy (items (NES_SCORE_STORAGE_PREFIX @ rom))) \<longrightarrow>
        loadStoredScores isBrowser parse st rom uid = [])"
proof (intro conjI impI ballI)
  fix v
  assume "v \<in> set (loadStoredScores isBrowser parse st rom uid)"
  then obtain scores where "loadStoredScores_try parse st rom uid = Some scores"
    and "v \<in> set scores"
    by (cases "loadStoredScores_try parse st rom uid")
       (auto simp: loadStoredScores_def split: if_splits)
  then have "is_finite_number v"
    using loadStoredScores_try_finite by blast
  then show "\<exists>x. v = JNum (Finite x)"
    by (simp add: is_finite_number_iff)
next
  assume "isBrowser \<and> st = Some items \<and> items (scoreStorageKey rom uid) = Some raw \<and> raw \<noteq> []"
  then show "loadStoredScores isBrowser parse st rom uid
          = (case parse raw of Some (JArr xs) \<Rightarrow> filter is_finite_number xs | _ \<Rightarrow> [])"
    by (simp add: loadStoredScores_def loadStoredScores_try_def Let_def truthy_def
        split: option.splits jsval.splits)
next
  assume "\<not> isBrowser \<or> st = None"
  then show "loadStoredScores isBrowser parse st rom uid = []"
    by (auto simp: loadStoredScores_def loadStoredScores_try_def)
next
  assume "isBrowser \<and> st = Some items \<and> \<not> truthy (items (scoreStorageKey rom uid))
        \<and> truthy uid \<and> items (NES_SCORE_STORAGE_PREFIX @ rom) = Some legacy \<and> legacy \<noteq> []"
  then show "loadStoredScores isBrowser parse st rom uid
          = (case parse legacy of Some (JArr xs) \<Rightarrow> filter is_finite_number xs | _ \<Rightarrow> [])"
    by (simp add: loadStoredScores_def loadStoredScores_try_def Let_def truthy_def
        split: option.splits jsval.splits)
next
  assume "st = Some items \<and> \<not> truthy (items (scoreStorageKey rom uid))
        \<and> (\<not> truthy uid \<or> \<not> truthy (items (NES_SCORE_STORAGE_PREFIX @ rom)))"
  then show "loadStoredScores isBrowser parse st rom uid = []"
    by (auto simp: loadStoredScores_def loadStoredScores_try_def Let_def)
qed

lemma sample_key: "scoreStorageKey ''smb.nes'' None = ''nesWidgetScores:anon:smb.nes''"
  by (simp add: scoreStorageKey_def score_owner_def NES_SCORE_STORAGE_PREFIX_def)

lemma sample_user_key: "scoreStorageKey ''smb.nes'' (Some ''u1'') = ''nesWidgetScores:u1:smb.nes''"
  by (simp add: scoreStorageKey_def score_owner_def NES_SCORE_STORAGE_PREFIX_def js_trim_def
      js_whitespace_def)

text \<open>
  C10 at a stored array with a null and an overflowing number among the scores: under the
  owner's key, and under the legacy key for a user who has no key yet; and with no store, and
  with an empty store.
\<close>

theorem loadStoredScores_finite_numbers_witness:
  "sample_items (scoreStorageKey ''smb.nes'' None) = Some ''[100,null,1e999,250.5]''
   \<and> loadStoredScores True sample_parse (Some sample_items) ''smb.nes'' None
       = [JNum (Finite 100), JNum (Finite 250.5)]
   \<and> loadStoredScores True sample_parse None ''smb.nes'' None = []
   \<and> legacy_items (NES_SCORE_STORAGE_PREFIX @ ''smb.nes'') = Some ''[100,null,1e999,250.5]''
   \<and> loadStoredScores True sample_parse (Some legacy_items) ''smb.nes'' (Some ''u1'')
       = [JNum (Finite 100), JNum (Finite 250.5)]
   \<and> loadStoredScores True sample_parse (Some Map.empty) ''smb.nes'' None = []"
proof -
  have i: "sample_items (scoreStorageKey ''smb.nes'' None) = Some ''[100,null,1e999,250.5]''"
    by (simp add: sample_key sample_items_def)
  have p: "sample_parse ''[100,null,1e999,250.5]''
      = Some (JArr [JNum (Finite 100), JNull, JNum PosInfinity, JNum (Finite 250.5)])"
    by (simp add: sample_parse_def)
  from loadStoredScores_finite_numbers [of True sample_parse "Some sample_items" "''smb.nes''" None
      sample_items "''[100,null,1e999,250.5]''"] i
  have "loadStoredScores True sample_parse (Some sample_items) ''smb.nes'' None
      = (case sample_parse ''[100,null,1e999,250.5]'' of
           Some (JArr xs) \<Rightarrow> filter is_finite_number xs | _ \<Rightarrow> [])"
    by simp
  then have a: "loadStoredScores True sample_parse (Some sample_items) ''smb.nes'' None
       = [JNum (Finite 100), JNum (Finite 250.5)]"
    by (simp add: p)
  from loadStoredScores_finite_numbers [of True sample_parse None "''smb.nes''" None]
  have b: "loadStoredScores True sample_parse None ''smb.nes'' None = []"
    by simp
  have l: "legacy_items (NES_SCORE_STORAGE_PREFIX @ ''smb.nes'') = Some ''[100,null,1e999,250.5]''"
    by (simp add: legacy_items_def NES_SCORE_STORAGE_PREFIX_def)
  have nk: "\<not> truthy (legacy_items (scoreStorageKey ''smb.nes'' (Some ''u1'')))"
    by (simp add: sample_user_key legacy_items_def truthy_def)
  have u: "truthy (Some ''u1'')"
    by (simp add: truthy_def)
  from loadStoredScores_finite_numbers [of True sample_parse "Some legacy_items" "''smb.nes''"
      "Some ''u1''" legacy_items _ "''[100,null,1e999,250.5]''"] l nk u
  have "loadStoredScores True sample_parse (Some legacy_items) ''smb.nes'' (Some ''u1'')
      = (case sample_parse ''[100,null,1e999,250.5]'' of
           Some (JArr xs) \<Rightarrow> filter is_finite_number xs | _ \<Rightarrow> [])"
    by simp
  then have c: "loadStoredScores True sample_parse (Some legacy_items) ''smb.nes'' (Some ''u1'')
       = [JNum (Finite 100), JNum (Finite 250.5)]"
    by (simp add: p)
  have "\<not> truthy (Map.empty (scoreStorageKey ''smb.nes'' None))" and "\<not> truthy None"
    by (simp_all add: truthy_def)
  with loadStoredScores_finite_numbers [of True sample_parse "Some Map.empty" "''smb.nes''" None
      Map.empty]
  have d: "loadStoredScores True sample_parse (Some Map.empty) ''smb.nes'' None = []"
    by simp
  from i a b l c d show ?thesis by simp
qed


end
